theory Spec2Isabelle
  imports Main "HOL-Library.AList" "HOL-Library.Multiset" "HOL-Library.Sublist"
begin

section \<open>The reporter of \<^verbatim>\<open>src/reporters/Reporter.ts\<close>\<close>

text \<open>
  The class \<^verbatim>\<open>Reporter\<close> listens to the events of a test run (suite start and end, test
  outcomes, coverage deliveries, run end), keeps a registry of sessions, a ledger of failed
  tests and a coverage collector, prints summaries and writes the coverage report.

  The embedding is a record of the object's fields together with the three places the
  methods write to (the console, the output stream, the disk). Every method is a function
  from that record to the updated record; a method that can throw returns an \<open>outcome\<close>,
  which keeps the record as the throw leaves it.
  Strings are byte strings: a character outside ASCII is its UTF-8 bytes.
\<close>

subsection \<open>Strings and numbers as JavaScript prints them\<close>

abbreviation NL :: string where
  "NL \<equiv> [CHR 0x0A]"

text \<open>A non-negative integer in a template literal or under \<^verbatim>\<open>%d\<close>: its decimal digits.\<close>

definition digit_char :: "nat \<Rightarrow> char" where
  "digit_char d = ''0123456789'' ! d"

function show_nat :: "nat \<Rightarrow> string" where
  "show_nat n = (if n < 10 then [digit_char n] else show_nat (n div 10) @ [digit_char (n mod 10)])"
  by pat_completeness auto
termination
  by (relation "measure (\<lambda>n. n)") auto

declare show_nat.simps [simp del]

text \<open>
  \<^verbatim>\<open>${test.timeElapsed / 1000}\<close> divides in binary floating point and prints the shortest
  decimal form of the quotient. That conversion belongs to the JavaScript runtime: the
  handlers take it as a parameter, a function from the elapsed milliseconds to the printed
  text.
\<close>

type_synonym seconds_text = "nat \<Rightarrow> string"

subsection \<open>Styled text (chalk)\<close>

text \<open>
  chalk is an external library that wraps a string in terminal colour codes. A styled string
  is kept here as its segments, each with the styles applied to it (outermost first);
  JavaScript's \<^verbatim>\<open>+\<close> on such strings is \<open>@\<close>, and \<open>plain\<close> is the text without styling.
\<close>

datatype style = Red | Green | Grey | White | Bold

type_synonym styled = "(style list \<times> string) list"

definition unstyled :: "string \<Rightarrow> styled" where
  "unstyled s = [([], s)]"

definition chalk :: "style list \<Rightarrow> styled \<Rightarrow> styled" where
  "chalk ss t = map (\<lambda>(st, s). (ss @ st, s)) t"

definition plain :: "styled \<Rightarrow> string" where
  "plain t = concat (map snd t)"

subsection \<open>JavaScript objects used as dictionaries\<close>

text \<open>
  \<^verbatim>\<open>this.sessions\<close> and \<^verbatim>\<open>this._errors\<close> are plain objects keyed by session identifier. The own
  properties of such an object are kept as a table in creation order; assigning to an existing
  own key keeps the key's place. \<^verbatim>\<open>for (k in obj)\<close> (Node's V8) visits the own keys that are
  array indices first, in ascending numeric order, then the other own keys in creation order,
  then the enumerable keys inherited from the prototype chain that no own key hides.
\<close>

type_synonym 'v dict = "(string \<times> 'v) list"

definition own_get :: "'v dict \<Rightarrow> string \<Rightarrow> 'v option" where
  "own_get d k = map_of d k"

definition own_set :: "'v dict \<Rightarrow> string \<Rightarrow> 'v \<Rightarrow> 'v dict" where
  "own_set d k v = AList.update k v d"

definition is_digit :: "char \<Rightarrow> bool" where
  "is_digit c = (c \<in> set ''0123456789'')"

definition array_index :: "string \<Rightarrow> nat" where
  "array_index s = foldl (\<lambda>n c. 10 * n + (of_char c - 48)) 0 s"

definition is_array_index :: "string \<Rightarrow> bool" where
  "is_array_index s =
     (s \<noteq> [] \<and> list_all is_digit s \<and> (s = ''0'' \<or> hd s \<noteq> CHR ''0'') \<and> array_index s < 4294967295)"

definition forin :: "'v dict \<Rightarrow> 'v dict" where
  "forin d = sort_key (\<lambda>p. array_index (fst p)) (filter (\<lambda>p. is_array_index (fst p)) d)
             @ filter (\<lambda>p. \<not> is_array_index (fst p)) d"

text \<open>
  A plain object inherits from \<^verbatim>\<open>Object.prototype\<close>. Reading a key that is not an own key
  finds the member of that name there: a built-in function for the names below, and for
  \<^verbatim>\<open>__proto__\<close> the prototype of the object itself. None of these members is enumerable.
  Assigning to \<^verbatim>\<open>__proto__\<close> replaces the prototype of the object and creates no own key;
  assigning to any other name creates or overwrites an own key.
\<close>

definition object_prototype_members :: "string list" where
  "object_prototype_members =
     [''constructor'', ''__defineGetter__'', ''__defineSetter__'', ''hasOwnProperty'',
      ''__lookupGetter__'', ''__lookupSetter__'', ''isPrototypeOf'', ''propertyIsEnumerable'',
      ''toString'', ''valueOf'', ''__proto__'', ''toLocaleString'']"

text \<open>\<^verbatim>\<open>sessionId || ''\<close>: the empty string is the only falsy string.\<close>

definition or_empty :: "string \<Rightarrow> string" where
  "or_empty s = (if s = [] then [] else s)"

subsection \<open>The host's suites and tests\<close>

text \<open>
  A suite and a test are objects of the host engine; the reporter reads the fields below.
  \<open>has_parent\<close> is whether \<^verbatim>\<open>suite.parent\<close> is set. The counters are computed by the host.
  \<^verbatim>\<open>suite.tests\<close> holds tests and nested suites. An error is represented by its message, and
  \<open>None\<close> is \<^verbatim>\<open>undefined\<close>. The elapsed time of a test is a whole number of milliseconds, the
  difference of two clock readings. A suite has no field named \<^verbatim>\<open>suite\<close>.
\<close>

type_synonym err = string

record test =
  test_id :: string
  test_sessionId :: string
  test_timeElapsed :: nat
  test_error :: "err option"

datatype suite =
  Suite (name: string) (sessionId: string) (has_parent: bool)
        (numTests: nat) (numFailedTests: nat) (numSkippedTests: nat)
        (error: "err option") (tests: "child list")
and child = ChildTest test | ChildSuite suite

text \<open>
  The reporter keeps a reference to the root suite of a session and reads its counters at run
  end, when the host has updated them: a suite is reached through a reference into the host's
  heap, and every event comes with the heap as it is at that moment.
\<close>

type_synonym ref = nat
type_synonym heap = "ref \<Rightarrow> suite"

subsection \<open>Coverage, the collector and the disk\<close>

text \<open>
  Modelled from the spec: the istanbul \<^verbatim>\<open>Collector\<close> and \<^verbatim>\<open>JsonReporter\<close> are an external
  library. A coverage snapshot is data keyed by instrumented file, here one count per file;
  \<^verbatim>\<open>Collector.add\<close> adds the counts of a snapshot to those already collected for the same
  file and takes over the files that are new; \<^verbatim>\<open>writeReport\<close> serializes what was collected
  to the configured file.
\<close>

type_synonym coverage_data = "string \<rightharpoonup> nat"

definition collector_add :: "coverage_data \<Rightarrow> coverage_data \<Rightarrow> coverage_data" where
  "collector_add store cov =
     (\<lambda>k. case cov k of
             None \<Rightarrow> store k
           | Some n \<Rightarrow> (case store k of None \<Rightarrow> Some n | Some m \<Rightarrow> Some (m + n)))"

definition count_of :: "coverage_data \<Rightarrow> string \<Rightarrow> nat" where
  "count_of cov k = (case cov k of None \<Rightarrow> 0 | Some n \<Rightarrow> n)"

text \<open>
  A file on disk is readable or not, and holds either the JSON of coverage data or something
  that \<^verbatim>\<open>JSON.parse\<close> rejects. Paths are resolved paths.
\<close>

datatype file_body = Json coverage_data | Garbage

datatype disk_file = File (readable: bool) (body: file_body)

type_synonym disk = "string \<rightharpoonup> disk_file"

datatype error = TypeError | SyntaxError | ENOENT | EACCES

subsection \<open>The reporter's state\<close>

text \<open>
  A session object is \<^verbatim>\<open>{ suite: suite }\<close>; \<^verbatim>\<open>coverage\<close> sets its property \<^verbatim>\<open>coverage\<close> to
  \<^verbatim>\<open>true\<close> (\<open>False\<close> here is the property not being there).
\<close>

record session =
  session_suite :: ref
  session_coverage :: bool

record entry =
  entry_id :: string
  entry_timeElapsed :: nat
  entry_error :: string

text \<open>
  The fields of the object (\<open>sessions\<close> and \<open>hasErrors\<close> are inherited from the base class
  \<^verbatim>\<open>Runner\<close>), then the console (one list of arguments per \<^verbatim>\<open>console.log\<close> call), the output
  stream (one item per \<^verbatim>\<open>write\<close>) and the disk. \<open>sessions\<close> and \<open>errors\<close> are the own
  properties of the two objects. \<open>sessions_proto\<close> is the prototype of \<^verbatim>\<open>this.sessions\<close> when
  an assignment to \<^verbatim>\<open>__proto__\<close> has replaced it by a session object (\<open>None\<close>: it is
  \<^verbatim>\<open>Object.prototype\<close>); \<^verbatim>\<open>this._errors\<close> always has \<^verbatim>\<open>Object.prototype\<close>, since the only
  assignment to it is made for a key that reads as falsy. \<open>polluted\<close> is whether
  \<^verbatim>\<open>Object.prototype\<close> has been given the property \<^verbatim>\<open>coverage\<close> (value \<^verbatim>\<open>true\<close>, enumerable), which
  every plain object then inherits; the external libraries are taken not to depend on it.
\<close>

record world =
  collector :: coverage_data
  errors :: "entry list dict"
  filename :: string
  mode :: string
  sessions :: "session dict"
  sessions_proto :: "session option"
  hasErrors :: bool
  polluted :: bool
  console :: "styled list list"
  output_stream :: "styled list"
  disk :: disk

datatype outcome = Returned world | Threw error world

fun world_of :: "outcome \<Rightarrow> world" where
  "world_of (Returned w) = w"
| "world_of (Threw e w) = w"

definition console_log :: "styled list \<Rightarrow> world \<Rightarrow> world" where
  "console_log args w = w\<lparr>console := console w @ [args]\<rparr>"

definition output_write :: "styled \<Rightarrow> world \<Rightarrow> world" where
  "output_write s w = w\<lparr>output_stream := output_stream w @ [s]\<rparr>"

text \<open>
  What \<^verbatim>\<open>this.sessions[k]\<close> reads: an own session object; or, inherited from a prototype that
  is a session object, its suite (key \<^verbatim>\<open>suite\<close>) or \<^verbatim>\<open>true\<close> (key \<^verbatim>\<open>coverage\<close>, when set); or,
  from \<^verbatim>\<open>Object.prototype\<close>, the prototype of \<^verbatim>\<open>this.sessions\<close> (key \<^verbatim>\<open>__proto__\<close>), a built-in
  function, or \<^verbatim>\<open>true\<close> (key \<^verbatim>\<open>coverage\<close>, when polluted); or \<^verbatim>\<open>undefined\<close>.
\<close>

datatype session_lookup =
  NoSession
| OwnSession session
| ProtoSession session
| ObjectPrototype
| BuiltinMember
| InheritedSuite ref
| InheritedTrue

definition object_prototype_get :: "world \<Rightarrow> string \<Rightarrow> session_lookup" where
  "object_prototype_get w k =
     (if k = ''__proto__'' then
        (case sessions_proto w of None \<Rightarrow> ObjectPrototype | Some p \<Rightarrow> ProtoSession p)
      else if k \<in> set object_prototype_members then BuiltinMember
      else if polluted w \<and> k = ''coverage'' then InheritedTrue
      else NoSession)"

definition sessions_get :: "world \<Rightarrow> string \<Rightarrow> session_lookup" where
  "sessions_get w k =
     (case own_get (sessions w) k of
        Some s \<Rightarrow> OwnSession s
      | None \<Rightarrow>
          (case sessions_proto w of
             None \<Rightarrow> object_prototype_get w k
           | Some p \<Rightarrow>
               if k = ''suite'' then InheritedSuite (session_suite p)
               else if k = ''coverage'' \<and> session_coverage p then InheritedTrue
               else object_prototype_get w k))"

text \<open>\<^verbatim>\<open>this.sessions[k] = v\<close>.\<close>

definition sessions_put :: "world \<Rightarrow> string \<Rightarrow> session \<Rightarrow> world" where
  "sessions_put w k v =
     (if k = ''__proto__'' then w\<lparr>sessions_proto := Some v\<rparr>
      else w\<lparr>sessions := own_set (sessions w) k v\<rparr>)"

text \<open>
  The enumerable keys \<^verbatim>\<open>this.sessions\<close> inherits and no own key hides, and what
  \<^verbatim>\<open>for (k in this.sessions)\<close> visits, each key with what \<^verbatim>\<open>this.sessions[k]\<close> reads there.
\<close>

definition sessions_inherited :: "world \<Rightarrow> string list" where
  "sessions_inherited w =
     filter (\<lambda>k. own_get (sessions w) k = None)
       (remdups
          ((case sessions_proto w of
              None \<Rightarrow> []
            | Some p \<Rightarrow> ''suite'' # (if session_coverage p then [''coverage''] else []))
           @ (if polluted w then [''coverage''] else [])))"

definition sessions_forin :: "world \<Rightarrow> (string \<times> session_lookup) list" where
  "sessions_forin w =
     map (\<lambda>p. (fst p, OwnSession (snd p))) (forin (sessions w))
     @ map (\<lambda>k. (k, sessions_get w k)) (sessions_inherited w)"

text \<open>
  The same for \<^verbatim>\<open>this._errors\<close>: an own list, or an inherited value that is truthy and is not
  an array (a built-in member, or \<^verbatim>\<open>true\<close>), or \<^verbatim>\<open>undefined\<close>.
\<close>

datatype errors_lookup = NoList | OwnList "entry list" | NotAList

definition errors_get :: "world \<Rightarrow> string \<Rightarrow> errors_lookup" where
  "errors_get w k =
     (case own_get (errors w) k of
        Some l \<Rightarrow> OwnList l
      | None \<Rightarrow>
          if k \<in> set object_prototype_members \<or> (polluted w \<and> k = ''coverage'') then NotAList
          else NoList)"

definition errors_inherited :: "world \<Rightarrow> string list" where
  "errors_inherited w =
     (if polluted w \<and> own_get (errors w) ''coverage'' = None then [''coverage''] else [])"

definition errors_forin :: "world \<Rightarrow> (string \<times> errors_lookup) list" where
  "errors_forin w =
     map (\<lambda>p. (fst p, OwnList (snd p))) (forin (errors w))
     @ map (\<lambda>k. (k, errors_get w k)) (errors_inherited w)"

subsection \<open>The constructor\<close>

definition DEFAULT_COVERAGE_FILENAME :: string where
  "DEFAULT_COVERAGE_FILENAME = ''coverage-final.json''"

record config =
  config_file :: "string option"
  config_mode :: "string option"

text \<open>
  \<^verbatim>\<open>config.file || DEFAULT_COVERAGE_FILENAME\<close> and \<^verbatim>\<open>config.mode || intern.mode\<close>: an option
  that is missing or the empty string gives the default. The base class starts with no
  session and the flag \<open>hasErrors\<close> unset.
\<close>

definition or_default :: "string option \<Rightarrow> string \<Rightarrow> string" where
  "or_default v d = (case v of None \<Rightarrow> d | Some s \<Rightarrow> if s = [] then d else s)"

definition Reporter :: "config \<Rightarrow> string \<Rightarrow> disk \<Rightarrow> world" where
  "Reporter cfg intern_mode fs =
     \<lparr> collector = Map.empty,
       errors = [],
       filename = or_default (config_file cfg) DEFAULT_COVERAGE_FILENAME,
       mode = or_default (config_mode cfg) intern_mode,
       sessions = [],
       sessions_proto = None,
       hasErrors = False,
       polluted = False,
       console = [],
       output_stream = [],
       disk = fs \<rparr>"

subsection \<open>Writing the coverage report\<close>

definition checkCoverageFinal :: "disk \<Rightarrow> bool" where
  "checkCoverageFinal fs =
     (case fs DEFAULT_COVERAGE_FILENAME of None \<Rightarrow> False | Some f \<Rightarrow> readable f)"

definition readFileSync :: "disk \<Rightarrow> string \<Rightarrow> error + file_body" where
  "readFileSync fs path =
     (case fs path of
        None \<Rightarrow> Inl ENOENT
      | Some f \<Rightarrow> if readable f then Inr (body f) else Inl EACCES)"

definition JSON_parse :: "file_body \<Rightarrow> error + coverage_data" where
  "JSON_parse b = (case b of Garbage \<Rightarrow> Inl SyntaxError | Json cov \<Rightarrow> Inr cov)"

text \<open>
  \<^verbatim>\<open>writeReport\<close> is taken to succeed. Writing over an existing file keeps its permissions; a
  new file is readable.
\<close>

definition writeReport :: "world \<Rightarrow> world" where
  "writeReport w =
     w\<lparr>disk := (disk w)(filename w \<mapsto>
         File (case disk w (filename w) of None \<Rightarrow> True | Some f \<Rightarrow> readable f)
              (Json (collector w)))\<rparr>"

definition writeCoverage :: "world \<Rightarrow> outcome" where
  "writeCoverage w =
     (if checkCoverageFinal (disk w) then
        (case readFileSync (disk w) (filename w) of
           Inl e \<Rightarrow> Threw e w
         | Inr b \<Rightarrow>
            (case JSON_parse b of
               Inl e \<Rightarrow> Threw e w
             | Inr cov \<Rightarrow> Returned (writeReport (w\<lparr>collector := collector_add (collector w) cov\<rparr>))))
      else Returned (writeReport w))"

subsection \<open>The event handlers\<close>

text \<open>
  \<^verbatim>\<open>coverage\<close>. The module is compiled in strict mode. \<^verbatim>\<open>session.coverage = true\<close> throws a
  \<^verbatim>\<open>TypeError\<close> when \<^verbatim>\<open>session\<close> is \<^verbatim>\<open>undefined\<close> or the boolean \<^verbatim>\<open>true\<close>, before anything is
  changed. On an own session object it sets the flag of that session; on the session object
  that is the prototype, the flag of that object; on \<^verbatim>\<open>Object.prototype\<close> it creates the
  property every object then inherits; on a built-in function or on the host's suite object it
  creates a property that the reporter never reads. In all these cases the snapshot is then
  added to the collector.
\<close>

definition coverage :: "world \<Rightarrow> string \<Rightarrow> coverage_data \<Rightarrow> outcome" where
  "coverage w sid cov =
     (if mode w = ''client'' \<or> sid \<noteq> [] then
        (case sessions_get w (or_empty sid) of
           NoSession \<Rightarrow> Threw TypeError w
         | InheritedTrue \<Rightarrow> Threw TypeError w
         | OwnSession s \<Rightarrow>
             Returned (w\<lparr>sessions := own_set (sessions w) (or_empty sid) (s\<lparr>session_coverage := True\<rparr>),
                         collector := collector_add (collector w) cov\<rparr>)
         | ProtoSession p \<Rightarrow>
             Returned (w\<lparr>sessions_proto := Some (p\<lparr>session_coverage := True\<rparr>),
                         collector := collector_add (collector w) cov\<rparr>)
         | ObjectPrototype \<Rightarrow>
             Returned (w\<lparr>polluted := True, collector := collector_add (collector w) cov\<rparr>)
         | BuiltinMember \<Rightarrow> Returned (w\<lparr>collector := collector_add (collector w) cov\<rparr>)
         | InheritedSuite r \<Rightarrow> Returned (w\<lparr>collector := collector_add (collector w) cov\<rparr>))
      else Returned w)"

text \<open>
  The loop of \<^verbatim>\<open>runEnd\<close> over the sessions, with its four counters.
  \<^verbatim>\<open>session.suite.numTests\<close> reads the counters of the suite of a session object and throws a
  \<^verbatim>\<open>TypeError\<close> when \<^verbatim>\<open>session\<close> is anything else, since \<^verbatim>\<open>session.suite\<close> is then \<^verbatim>\<open>undefined\<close>.
\<close>

fun session_counters :: "heap \<Rightarrow> session_lookup \<Rightarrow> error + nat \<times> nat \<times> nat" where
  "session_counters h (OwnSession s) =
     Inr (numTests (h (session_suite s)), numFailedTests (h (session_suite s)),
          numSkippedTests (h (session_suite s)))"
| "session_counters h (ProtoSession s) =
     Inr (numTests (h (session_suite s)), numFailedTests (h (session_suite s)),
          numSkippedTests (h (session_suite s)))"
| "session_counters h v = Inl TypeError"

fun count_sessions ::
  "heap \<Rightarrow> (string \<times> session_lookup) list \<Rightarrow> nat \<times> nat \<times> nat \<times> nat \<Rightarrow> error + nat \<times> nat \<times> nat \<times> nat" where
  "count_sessions h [] acc = Inr acc"
| "count_sessions h ((sid, v) # rest) (numEnvironments, nTests, nFailed, nSkipped) =
     (case session_counters h v of
        Inl e \<Rightarrow> Inl e
      | Inr (t, f, s) \<Rightarrow>
          count_sessions h rest (numEnvironments + 1, nTests + t, nFailed + f, nSkipped + s))"

definition render_error :: "seconds_text \<Rightarrow> entry \<Rightarrow> styled" where
  "render_error secs t =
     chalk [Red] (unstyled ''x '') @ chalk [White, Bold] (unstyled (entry_id t))
     @ chalk [White] (unstyled ('' ('' @ secs (entry_timeElapsed t) @ ''s)'' @ NL))
     @ chalk [Red] (unstyled (entry_error t))"

text \<open>
  The loop of \<^verbatim>\<open>runEnd\<close> over the ledger: \<^verbatim>\<open>forEach\<close> prints the entries of an own list, and
  calling it on an inherited value, which has no such method, throws a \<^verbatim>\<open>TypeError\<close>.
\<close>

fun print_errors :: "seconds_text \<Rightarrow> (string \<times> errors_lookup) list \<Rightarrow> world \<Rightarrow> outcome" where
  "print_errors secs [] w = Returned w"
| "print_errors secs ((sid, OwnList l) # rest) w =
     print_errors secs rest
       (foldl (\<lambda>w' t. console_log [render_error secs t, unstyled NL] w') w l)"
| "print_errors secs ((sid, v) # rest) w = Threw TypeError w"

definition total_message :: "nat \<Rightarrow> nat \<Rightarrow> nat \<Rightarrow> nat \<Rightarrow> bool \<Rightarrow> styled" where
  "total_message numEnvironments nTests nFailed nSkipped fatal =
     chalk [Bold] (unstyled (NL @ ''TOTAL''))
     @ unstyled ('': tested '' @ show_nat numEnvironments @ '' platforms, ''
            @ show_nat nFailed @ ''/'' @ show_nat nTests @ '' failed''
            @ (if nSkipped \<noteq> 0 then '' ('' @ show_nat nSkipped @ '' skipped)'' else [])
            @ (if fatal \<and> nFailed = 0 then ''; fatal error occurred'' else []))"

definition runEnd :: "seconds_text \<Rightarrow> heap \<Rightarrow> world \<Rightarrow> outcome" where
  "runEnd secs h w =
     (case count_sessions h (sessions_forin w) (0, 0, 0, 0) of
        Inl e \<Rightarrow> Threw e w
      | Inr (numEnvironments, nTests, nFailed, nSkipped) \<Rightarrow>
          let w1 = console_log [] w;
              w2 = (if nFailed > 0
                    then console_log [chalk [Red, Bold] (unstyled (NL @ ''Reported Test Errors:'' @ NL))] w1
                    else w1)
          in (case print_errors secs (errors_forin w) w2 of
                Threw e w3 \<Rightarrow> Threw e w3
              | Returned w3 \<Rightarrow>
                  let message = total_message numEnvironments nTests nFailed nSkipped (hasErrors w);
                      w4 = console_log [chalk [if nFailed > 0 \<or> hasErrors w then Red else Green] message] w3
                  in writeCoverage w4))"

definition suiteStart :: "heap \<Rightarrow> world \<Rightarrow> ref \<Rightarrow> world" where
  "suiteStart h w r =
     (let suite = h r in
      if \<not> has_parent suite then
        let w1 = sessions_put w (or_empty (sessionId suite))
                   \<lparr>session_suite = r, session_coverage = False\<rparr>
        in if sessionId suite \<noteq> [] then
             console_log [unstyled (NL @ [CHR 0xE2, CHR 0x80, CHR 0xA3] @ '' Created session '' @ name suite
                               @ '' ('' @ sessionId suite @ '')'')] w1
           else w1
      else w)"

text \<open>
  \<^verbatim>\<open>hasError\<close> is applied to a suite and, through \<^verbatim>\<open>some\<close>, to every member of \<^verbatim>\<open>tests\<close>. A test
  has no \<^verbatim>\<open>tests\<close> field, so the answer for it is \<^verbatim>\<open>false\<close>; an array, even an empty one, is
  truthy. The value is the suite's error object when there is one, a boolean otherwise.
\<close>

datatype js_value = JsError err | JsBool bool

fun truthy :: "js_value \<Rightarrow> bool" where
  "truthy (JsError e) = True"
| "truthy (JsBool b) = b"

text \<open>\<^verbatim>\<open>hasError > 0\<close>: \<^verbatim>\<open>true\<close> is 1; an error object converts to \<^verbatim>\<open>NaN\<close>, which is not above 0.\<close>

fun greater_than_zero :: "js_value \<Rightarrow> bool" where
  "greater_than_zero (JsError e) = False"
| "greater_than_zero (JsBool b) = b"

fun hasError :: "child \<Rightarrow> js_value" where
  "hasError (ChildTest t) = JsBool False"
| "hasError (ChildSuite (Suite n sid p nt nf ns e ts)) =
     (case e of
        Some x \<Rightarrow> JsError x
      | None \<Rightarrow> JsBool (list_ex (\<lambda>c. truthy (hasError c)) ts))"

definition suite_summary :: "suite \<Rightarrow> string" where
  "suite_summary suite =
     name suite @ '': '' @ show_nat (numFailedTests suite) @ ''/'' @ show_nat (numTests suite)
     @ '' tests failed''
     @ (if numSkippedTests suite \<noteq> 0 then '' ('' @ show_nat (numSkippedTests suite) @ '' skipped)'' else [])
     @ (if truthy (hasError (ChildSuite suite)) then ''; fatal error occurred'' else [])"

definition suiteEnd :: "heap \<Rightarrow> world \<Rightarrow> ref \<Rightarrow> world" where
  "suiteEnd h w r =
     (let suite = h r in
      if has_parent suite \<or> mode w = ''client'' \<or> sessionId suite = [] then w
      else
        let w1 = console_log [unstyled NL] w;
            colour = (if numFailedTests suite \<noteq> 0 \<or> greater_than_zero (hasError (ChildSuite suite))
                      then Red else Green)
        in console_log [chalk [colour] (unstyled (suite_summary suite)) @ unstyled NL] w1)"

text \<open>
  \<^verbatim>\<open>testFail\<close>. \<^verbatim>\<open>util.getErrorMessage\<close> belongs to the host and is a parameter; it returns the
  message or throws. The list of the session is created when the key reads as \<^verbatim>\<open>undefined\<close>.
  Then \<^verbatim>\<open>this._errors[k].push\<close> is read, the message is computed, and the entry is pushed: a
  throw of \<^verbatim>\<open>getErrorMessage\<close> leaves the list as it is (empty, when it has just been created),
  and under a key that reads an inherited value, which has no \<^verbatim>\<open>push\<close>, the call throws a
  \<^verbatim>\<open>TypeError\<close>. The glyph is written after the push.
\<close>

definition error_entry :: "test \<Rightarrow> string \<Rightarrow> entry" where
  "error_entry t message =
     \<lparr>entry_id = test_id t, entry_timeElapsed = test_timeElapsed t, entry_error = message\<rparr>"

definition testFail :: "(err option \<Rightarrow> error + string) \<Rightarrow> world \<Rightarrow> test \<Rightarrow> outcome" where
  "testFail getErrorMessage w t =
     (let sid = test_sessionId t;
          w1 = (if errors_get w sid = NoList then w\<lparr>errors := own_set (errors w) sid []\<rparr> else w)
      in case errors_get w1 sid of
           NoList \<Rightarrow> Threw TypeError w1
         | NotAList \<Rightarrow>
             (case getErrorMessage (test_error t) of
                Inl e \<Rightarrow> Threw e w1
              | Inr message \<Rightarrow> Threw TypeError w1)
         | OwnList l \<Rightarrow>
             (case getErrorMessage (test_error t) of
                Inl e \<Rightarrow> Threw e w1
              | Inr message \<Rightarrow>
                  Returned (output_write (chalk [Red] (unstyled [CHR 0xC3, CHR 0x97]))
                              (w1\<lparr>errors := own_set (errors w1) sid (l @ [error_entry t message])\<rparr>))))"

definition testPass :: "world \<Rightarrow> world" where
  "testPass w = output_write (chalk [Green] (unstyled [CHR 0xE2, CHR 0x9C, CHR 0x93])) w"

definition testSkip :: "world \<Rightarrow> world" where
  "testSkip w = output_write (chalk [Grey] (unstyled ''~'')) w"

subsection \<open>A run: the events before run end\<close>

datatype event =
  SuiteStart ref
| SuiteEnd ref
| TestPass
| TestFail test
| TestSkip
| Coverage string coverage_data

fun step :: "(err option \<Rightarrow> error + string) \<Rightarrow> heap \<Rightarrow> event \<Rightarrow> world \<Rightarrow> outcome" where
  "step g h (SuiteStart r) w = Returned (suiteStart h w r)"
| "step g h (SuiteEnd r) w = Returned (suiteEnd h w r)"
| "step g h TestPass w = Returned (testPass w)"
| "step g h (TestFail t) w = testFail g w t"
| "step g h TestSkip w = Returned (testSkip w)"
| "step g h (Coverage sid cov) w = coverage w sid cov"

text \<open>The events are handled one after the other; the run stops at the first that throws.\<close>

fun run :: "(err option \<Rightarrow> error + string) \<Rightarrow> (heap \<times> event) list \<Rightarrow> world \<Rightarrow> outcome" where
  "run g [] w = Returned w"
| "run g ((h, e) # evs) w =
     (case step g h e w of
        Returned w' \<Rightarrow> run g evs w'
      | Threw x w' \<Rightarrow> Threw x w')"

subsection \<open>Notions used to state the properties\<close>

text \<open>
  The registrations of a run: for every \<^verbatim>\<open>suiteStart\<close> of a suite without parent, in order,
  the key it registers under and the reference it registers. The registered sessions are the
  keys; the root suite of a session is the one registered last under its key.
\<close>

fun registrations :: "(heap \<times> event) list \<Rightarrow> (string \<times> ref) list" where
  "registrations [] = []"
| "registrations ((h, SuiteStart r) # evs) =
     (if has_parent (h r) then [] else [(or_empty (sessionId (h r)), r)]) @ registrations evs"
| "registrations ((h, e) # evs) = registrations evs"

definition registered :: "(heap \<times> event) list \<Rightarrow> string set" where
  "registered evs = fst ` set (registrations evs)"

text \<open>
  A run that never uses the key \<^verbatim>\<open>__proto__\<close>: no root suite starts under it and no snapshot is
  delivered under it. Such a run leaves the prototypes alone.
\<close>

fun proto_free_event :: "heap \<times> event \<Rightarrow> bool" where
  "proto_free_event (h, SuiteStart r) = (has_parent (h r) \<or> or_empty (sessionId (h r)) \<noteq> ''__proto__'')"
| "proto_free_event (h, Coverage sid cov) = (or_empty sid \<noteq> ''__proto__'')"
| "proto_free_event (h, e) = True"

definition proto_free :: "(heap \<times> event) list \<Rightarrow> bool" where
  "proto_free evs = list_all proto_free_event evs"

text \<open>
  The sum of a counter over the root suites of the sessions of a table of own properties, and
  the lines \<^verbatim>\<open>runEnd\<close> prints when its loops visit own keys only, written with these sums.
\<close>

definition session_total :: "(suite \<Rightarrow> nat) \<Rightarrow> heap \<Rightarrow> session dict \<Rightarrow> nat" where
  "session_total f h d = sum_list (map (\<lambda>p. f (h (session_suite (snd p)))) d)"

definition errors_header :: "heap \<Rightarrow> world \<Rightarrow> styled list list" where
  "errors_header h w =
     (if session_total numFailedTests h (sessions w) > 0
      then [[chalk [Red, Bold] (unstyled (NL @ ''Reported Test Errors:'' @ NL))]] else [])"

definition error_line :: "seconds_text \<Rightarrow> entry \<Rightarrow> styled list" where
  "error_line secs t = [render_error secs t, unstyled NL]"

definition totals_line :: "heap \<Rightarrow> world \<Rightarrow> styled list" where
  "totals_line h w =
     [chalk [if session_total numFailedTests h (sessions w) > 0 \<or> hasErrors w then Red else Green]
        (total_message (length (sessions w)) (session_total numTests h (sessions w))
           (session_total numFailedTests h (sessions w))
           (session_total numSkippedTests h (sessions w)) (hasErrors w))]"

definition runEnd_lines :: "seconds_text \<Rightarrow> heap \<Rightarrow> world \<Rightarrow> styled list list" where
  "runEnd_lines secs h w =
     [[]] @ errors_header h w @ map (error_line secs) (concat (map snd (forin (errors w))))
     @ [totals_line h w]"

text \<open>
  \<open>decimal s n\<close>: the text \<open>s\<close> is the decimal numeral of \<open>n\<close>. It has at least one character,
  every character is a digit, there is no leading zero except for the numeral \<^verbatim>\<open>0\<close> itself, and
  the digits read from the left give \<open>n\<close>.
\<close>

definition digit_value :: "char \<Rightarrow> nat option" where
  "digit_value c = map_of (zip ''0123456789'' [0, 1, 2, 3, 4, 5, 6, 7, 8, 9]) c"

fun numeral_value :: "string \<Rightarrow> nat \<Rightarrow> nat option" where
  "numeral_value [] n = Some n"
| "numeral_value (c # cs) n =
     (case digit_value c of None \<Rightarrow> None | Some d \<Rightarrow> numeral_value cs (10 * n + d))"

definition decimal :: "string \<Rightarrow> nat \<Rightarrow> bool" where
  "decimal s n = (s \<noteq> [] \<and> (s = ''0'' \<or> hd s \<noteq> CHR ''0'') \<and> numeral_value s 0 = Some n)"

text \<open>
  The counters are JavaScript numbers. A number holds a non-negative integer exactly up to
  \<^verbatim>\<open>Number.MAX_SAFE_INTEGER\<close>, which is \<^verbatim>\<open>2 ** 53 - 1\<close>; sums that stay in this range are computed
  exactly, as the natural numbers of the embedding are, and print as their decimal numerals.
\<close>

definition safe_integer :: "nat \<Rightarrow> bool" where
  "safe_integer n = (n \<le> 9007199254740991)"

text \<open>
  The totals line, spelled out: the styled segments of the one argument of the last
  \<^verbatim>\<open>console.log\<close>, from the numerals of the four counts.
\<close>

definition totals_text :: "style \<Rightarrow> string \<Rightarrow> string \<Rightarrow> string \<Rightarrow> string option \<Rightarrow> bool \<Rightarrow> styled list" where
  "totals_text colour e f t skipped fatal_suffix =
     [[([colour, Bold], NL @ ''TOTAL''),
       ([colour], '': tested '' @ e @ '' platforms, '' @ f @ ''/'' @ t @ '' failed''
                  @ (case skipped of None \<Rightarrow> [] | Some k \<Rightarrow> '' ('' @ k @ '' skipped)'')
                  @ (if fatal_suffix then ''; fatal error occurred'' else []))]]"

text \<open>
  The suites of a tree (a suite and the suites nested in it, at any depth) and its tests.
  \<open>carries_terminal_error\<close> is the condition as the specification words it: the suite
  itself or any descendant test carries an error.
\<close>

fun subsuites :: "child \<Rightarrow> suite list" where
  "subsuites (ChildTest t) = []"
| "subsuites (ChildSuite (Suite n sid p nt nf ns e ts)) =
     Suite n sid p nt nf ns e ts # concat (map subsuites ts)"

fun descendant_tests :: "child \<Rightarrow> test list" where
  "descendant_tests (ChildTest t) = [t]"
| "descendant_tests (ChildSuite (Suite n sid p nt nf ns e ts)) = concat (map descendant_tests ts)"

fun has_error :: "err option \<Rightarrow> bool" where
  "has_error None = False"
| "has_error (Some e) = True"

definition carries_terminal_error :: "suite \<Rightarrow> bool" where
  "carries_terminal_error s =
     (has_error (error s) \<or> list_ex (\<lambda>t. has_error (test_error t)) (descendant_tests (ChildSuite s)))"

text \<open>
  The counter of the root suite of a registered session, read in a heap; the events the
  lifecycle of suites and tests is made of; the lifecycle events that are handled without a
  throw when \<^verbatim>\<open>Object.prototype\<close> has not been changed: a \<^verbatim>\<open>testFail\<close> is one when the session
  identifier of the test names no member of \<^verbatim>\<open>Object.prototype\<close> and \<^verbatim>\<open>getErrorMessage\<close> returns.
\<close>

definition session_counter :: "(suite \<Rightarrow> nat) \<Rightarrow> heap \<Rightarrow> (heap \<times> event) list \<Rightarrow> string \<Rightarrow> nat" where
  "session_counter f h evs k =
     (case map_of (rev (registrations evs)) k of None \<Rightarrow> 0 | Some r \<Rightarrow> f (h r))"

fun lifecycle :: "event \<Rightarrow> bool" where
  "lifecycle (Coverage sid cov) = False"
| "lifecycle e = True"

definition returns :: "(err option \<Rightarrow> error + string) \<Rightarrow> err option \<Rightarrow> bool" where
  "returns g e = (case g e of Inl x \<Rightarrow> False | Inr m \<Rightarrow> True)"

fun handled :: "(err option \<Rightarrow> error + string) \<Rightarrow> event \<Rightarrow> bool" where
  "handled g (Coverage sid cov) = False"
| "handled g (TestFail t) =
     (test_sessionId t \<notin> set object_prototype_members \<and> returns g (test_error t))"
| "handled g e = True"

definition root_of :: "session dict \<Rightarrow> string \<Rightarrow> ref option" where
  "root_of d k = map_option session_suite (map_of d k)"





text \<open>
  The snapshots of a run that \<^verbatim>\<open>coverage\<close> accepts in a given mode (delivered in client mode or
  with a non-empty session identifier), in order; and what the file at the default path
  contributes as prior artifact: its coverage when it is readable and well formed, nothing
  when it is absent or unreadable (no value when it is readable and malformed).
\<close>

fun accepted :: "string \<Rightarrow> (heap \<times> event) list \<Rightarrow> coverage_data list" where
  "accepted m [] = []"
| "accepted m ((h, Coverage sid cov) # evs) =
     (if m = ''client'' \<or> sid \<noteq> [] then [cov] else []) @ accepted m evs"
| "accepted m ((h, e) # evs) = accepted m evs"

definition artifact_coverage :: "disk_file option \<Rightarrow> coverage_data option" where
  "artifact_coverage f =
     (case f of
        None \<Rightarrow> Some Map.empty
      | Some (File r b) \<Rightarrow>
          if r then (case b of Json cov \<Rightarrow> Some cov | Garbage \<Rightarrow> None) else Some Map.empty)"

subsection \<open>Example values\<close>

definition example_config :: config where
  "example_config = \<lparr>config_file = None, config_mode = None\<rparr>"

text \<open>
  A heap with the root suites of two sessions (\<open>A\<close> with 10 tests, 1 failed; \<open>B\<close> with 5
  tests, 2 skipped), a nested suite, a root suite with a failed test whose error is set, one
  with a test whose error is set and a failed-test count of 0, one with a nested suite whose
  error is set, and a root suite whose session identifier is \<^verbatim>\<open>__proto__\<close>.
\<close>

definition example_heap :: heap where
  "example_heap r =
     (if r = 0 then Suite ''chrome'' ''A'' False 10 1 0 None []
      else if r = 1 then Suite ''firefox'' ''B'' False 5 0 2 None []
      else if r = 2 then Suite ''nested'' ''A'' True 3 0 0 None []
      else if r = 3 then
        Suite ''unit'' ''C'' False 1 1 0 None
          [ChildTest \<lparr>test_id = ''unit - fails'', test_sessionId = ''C'',
                       test_timeElapsed = 1500, test_error = Some ''boom''\<rparr>]
      else if r = 4 then
        Suite ''odd'' ''D'' False 1 0 0 None
          [ChildTest \<lparr>test_id = ''odd - errs'', test_sessionId = ''D'',
                       test_timeElapsed = 20, test_error = Some ''boom''\<rparr>]
      else if r = 5 then
        Suite ''outer'' ''E'' False 2 0 0 None
          [ChildSuite (Suite ''inner'' ''E'' True 2 0 0 (Some ''setup failed'') [])]
      else Suite ''safari'' ''__proto__'' False 4 0 0 None [])"

text \<open>The same heap when the suites start: no test has run yet.\<close>

definition start_heap :: heap where
  "start_heap r =
     (if r = 0 then Suite ''chrome'' ''A'' False 10 0 0 None []
      else if r = 1 then Suite ''firefox'' ''B'' False 5 0 0 None []
      else example_heap r)"

definition login_test :: "nat \<Rightarrow> test" where
  "login_test ms =
     \<lparr>test_id = ''main - login'', test_sessionId = ''A'', test_timeElapsed = ms,
      test_error = Some ''timeout''\<rparr>"

text \<open>A failed test whose session identifier is \<^verbatim>\<open>constructor\<close>.\<close>

definition constructor_test :: test where
  "constructor_test =
     \<lparr>test_id = ''main - login'', test_sessionId = ''constructor'', test_timeElapsed = 1500,
      test_error = Some ''timeout''\<rparr>"

text \<open>
  A run over two sessions: both root suites start, a nested suite starts, a test passes, the
  login test of session \<open>A\<close> fails, is retried and fails again, a test is skipped, the suites end.
\<close>

definition example_run :: "(heap \<times> event) list" where
  "example_run =
     [(start_heap, SuiteStart 0), (start_heap, SuiteStart 1), (start_heap, SuiteStart 2),
      (start_heap, TestPass), (start_heap, TestFail (login_test 1500)), (start_heap, TestSkip),
      (example_heap, TestFail (login_test 1800)), (example_heap, SuiteEnd 2),
      (example_heap, SuiteEnd 0), (example_heap, SuiteEnd 1)]"

text \<open>
  A \<^verbatim>\<open>getErrorMessage\<close> that throws on \<^verbatim>\<open>undefined\<close>, and the printed seconds of the two elapsed
  times of the example.
\<close>

definition example_message :: "err option \<Rightarrow> error + string" where
  "example_message e = (case e of None \<Rightarrow> Inl TypeError | Some m \<Rightarrow> Inr (''Error: '' @ m))"

definition example_seconds :: seconds_text where
  "example_seconds ms = (if ms = 1500 then ''1.5'' else if ms = 1800 then ''1.8'' else ''0'')"

definition example_world :: world where
  "example_world = Reporter example_config ''runner'' Map.empty"

definition client_world :: world where
  "client_world = Reporter \<lparr>config_file = None, config_mode = Some ''client''\<rparr> ''runner'' Map.empty"

definition fatal_world :: "string \<Rightarrow> ref \<Rightarrow> world" where
  "fatal_world sid r =
     example_world\<lparr>sessions := [(sid, \<lparr>session_suite = r, session_coverage = False\<rparr>)],
                    hasErrors := True\<rparr>"

definition custom_world :: "disk \<Rightarrow> world" where
  "custom_world fs =
     (Reporter \<lparr>config_file = Some ''custom.json'', config_mode = None\<rparr> ''runner'' fs)
       \<lparr>collector := [''x.js'' \<mapsto> 3]\<rparr>"

text \<open>A disk with a prior artifact at the default path: count 5 for \<^verbatim>\<open>x.js\<close>.\<close>

definition prior_world :: "string \<Rightarrow> world" where
  "prior_world m =
     Reporter \<lparr>config_file = None, config_mode = Some m\<rparr> ''runner''
       [DEFAULT_COVERAGE_FILENAME \<mapsto> File True (Json [''x.js'' \<mapsto> 5])]"

text \<open>A run that registers session \<open>A\<close> and delivers one snapshot, count 3 for \<^verbatim>\<open>x.js\<close>.\<close>

definition coverage_run :: "string \<Rightarrow> (heap \<times> event) list" where
  "coverage_run sid = [(start_heap, SuiteStart 0), (example_heap, Coverage sid [''x.js'' \<mapsto> 3])]"

section \<open>Properties\<close>

subsection \<open>Unfolding the handlers on concrete inputs\<close>

lemmas lookup_defs =
  own_get_def own_set_def sessions_get_def sessions_put_def object_prototype_get_def
  object_prototype_members_def errors_get_def sessions_inherited_def sessions_forin_def
  errors_inherited_def errors_forin_def

lemmas handler_defs =
  suiteStart_def suiteEnd_def testFail_def testPass_def testSkip_def coverage_def
  console_log_def output_write_def chalk_def unstyled_def error_entry_def lookup_defs

lemmas example_defs =
  Reporter_def example_config_def or_default_def DEFAULT_COVERAGE_FILENAME_def
  example_heap_def example_message_def example_world_def fatal_world_def client_world_def
  start_heap_def login_test_def example_run_def prior_world_def coverage_run_def
  constructor_test_def example_seconds_def

lemmas show_defs = show_nat.simps digit_char_def

lemmas disk_defs =
  custom_world_def writeCoverage_def writeReport_def checkCoverageFinal_def readFileSync_def
  JSON_parse_def collector_add_def

subsection \<open>Own properties\<close>

lemma or_empty_id [simp]: "or_empty s = s"
  by (simp add: or_empty_def)

lemma own_get_set: "own_get (own_set d k v) k' = (if k' = k then Some v else own_get d k')"
  by (simp add: own_get_def own_set_def update_conv')

lemma keys_own_set: "fst ` set (own_set d k v) = insert k (fst ` set d)"
  by (simp add: own_set_def dom_update)

lemma distinct_own_set: "distinct (map fst d) \<Longrightarrow> distinct (map fst (own_set d k v))"
  by (simp add: own_set_def distinct_update)

lemma own_get_None: "own_get d k = None \<longleftrightarrow> k \<notin> fst ` set d"
  by (simp add: own_get_def map_of_eq_None_iff)

lemma insert_key_absorb: "own_get d k = Some v \<Longrightarrow> insert k (fst ` set d) = fst ` set d"
  using own_get_None [of d k] by (simp add: insert_absorb)

lemma own_set_twice: "own_set (own_set d k v) k v' = own_set d k v'"
  by (simp add: own_set_def)

subsection \<open>The collector\<close>

lemma collector_add_empty [simp]: "collector_add c Map.empty = c"
  by (simp add: collector_add_def)

lemma collector_add_empty_left [simp]: "collector_add Map.empty c = c"
  by (rule ext) (simp add: collector_add_def split: option.splits)

lemma count_of_empty [simp]: "count_of Map.empty x = 0"
  by (simp add: count_of_def)

subsection \<open>Lookups through the prototype chain\<close>

lemma proto_member: "''__proto__'' \<in> set object_prototype_members"
  by (simp add: object_prototype_members_def)

lemma sessions_get_Own: "sessions_get w k = OwnSession s \<longleftrightarrow> own_get (sessions w) k = Some s"
  by (auto simp: sessions_get_def object_prototype_get_def split: option.splits)

lemma sessions_get_plain:
  assumes "sessions_proto w = None" and "\<not> polluted w" and "k \<notin> set object_prototype_members"
  shows "sessions_get w k = (case own_get (sessions w) k of None \<Rightarrow> NoSession | Some s \<Rightarrow> OwnSession s)"
  using assms
  by (auto simp: sessions_get_def object_prototype_get_def object_prototype_members_def
      split: option.splits)

lemma sessions_get_no_proto:
  assumes "sessions_proto w = None" and "\<not> polluted w" and "k \<noteq> ''__proto__''"
  shows "sessions_get w k \<in> {NoSession, BuiltinMember} \<union> range OwnSession"
  using assms by (auto simp: sessions_get_def object_prototype_get_def split: option.splits)

lemma sessions_forin_own:
  assumes "sessions_inherited w = []"
  shows "sessions_forin w = map (\<lambda>p. (fst p, OwnSession (snd p))) (forin (sessions w))"
  using assms by (simp add: sessions_forin_def)

lemma errors_forin_own:
  assumes "errors_inherited w = []"
  shows "errors_forin w = map (\<lambda>p. (fst p, OwnList (snd p))) (forin (errors w))"
  using assms by (simp add: errors_forin_def)

lemma inherited_none:
  assumes "sessions_proto w = None" and "\<not> polluted w"
  shows "sessions_inherited w = []" and "errors_inherited w = []"
  using assms by (simp_all add: sessions_inherited_def errors_inherited_def)

lemma errors_get_Own: "errors_get w k = OwnList l \<longleftrightarrow> own_get (errors w) k = Some l"
  by (auto simp: errors_get_def split: option.splits)

lemma errors_get_NoList:
  "errors_get w k = NoList \<longleftrightarrow>
     own_get (errors w) k = None \<and> k \<notin> set object_prototype_members \<and> \<not> (polluted w \<and> k = ''coverage'')"
  by (auto simp: errors_get_def split: option.splits)

subsection \<open>What a handled event keeps\<close>

lemma testFail_Returned:
  assumes "testFail g w t = Returned w'"
  shows "\<exists>m. g (test_error t) = Inr m
           \<and> errors_get w (test_sessionId t) \<noteq> NotAList
           \<and> w' = output_write (chalk [Red] (unstyled [CHR 0xC3, CHR 0x97]))
                     (w\<lparr>errors := own_set (errors w) (test_sessionId t)
                          ((case own_get (errors w) (test_sessionId t) of None \<Rightarrow> [] | Some l \<Rightarrow> l)
                           @ [error_entry t m])\<rparr>)"
proof (cases "errors_get w (test_sessionId t)")
  case NoList
  then have o: "own_get (errors w) (test_sessionId t) = None" by (simp add: errors_get_NoList)
  from NoList assms show ?thesis
    by (auto simp: testFail_def Let_def errors_get_def own_get_set own_set_twice o
        split: sum.splits)
next
  case (OwnList l)
  then have o: "own_get (errors w) (test_sessionId t) = Some l" by (simp add: errors_get_Own)
  from OwnList assms show ?thesis
    by (auto simp: testFail_def Let_def o split: sum.splits)
next
  case NotAList
  with assms show ?thesis by (auto simp: testFail_def Let_def split: sum.splits)
qed

lemma frame_step:
  assumes "step g h e w = Returned w'"
  shows "filename w' = filename w \<and> mode w' = mode w \<and> disk w' = disk w \<and> hasErrors w' = hasErrors w"
proof (cases e)
  case (TestFail t)
  with assms have "testFail g w t = Returned w'" by simp
  from testFail_Returned [OF this] show ?thesis by (auto simp: output_write_def)
next
  case (Coverage sid cov)
  with assms show ?thesis
    by (auto simp: coverage_def split: if_splits session_lookup.splits)
qed (use assms in \<open>auto simp: suiteStart_def suiteEnd_def testPass_def testSkip_def sessions_put_def
        console_log_def output_write_def Let_def split: if_splits\<close>)

lemma run_Cons_Returned:
  "run g ((h, e) # evs) w0 = Returned w \<Longrightarrow>
   \<exists>w1. step g h e w0 = Returned w1 \<and> run g evs w1 = Returned w"
  by (auto split: outcome.splits)

lemma frame_run:
  "run g evs w0 = Returned w \<Longrightarrow>
   filename w = filename w0 \<and> mode w = mode w0 \<and> disk w = disk w0 \<and> hasErrors w = hasErrors w0"
proof (induction evs arbitrary: w0)
  case Nil
  then show ?case by simp
next
  case (Cons p evs)
  obtain h e where p: "p = (h, e)" by (cases p)
  from Cons.prems p obtain w1 where s: "step g h e w0 = Returned w1" and r: "run g evs w1 = Returned w"
    using run_Cons_Returned by blast
  from Cons.IH [OF r] frame_step [OF s] show ?case by simp
qed

text \<open>A run that never uses the key \<^verbatim>\<open>__proto__\<close> leaves the prototypes as they are.\<close>

lemma prototypes_step:
  assumes "step g h e w = Returned w'" and "proto_free_event (h, e)"
    and "sessions_proto w = None" and "\<not> polluted w"
  shows "sessions_proto w' = None \<and> \<not> polluted w'"
proof (cases e)
  case (SuiteStart r)
  with assms show ?thesis
    by (auto simp: suiteStart_def sessions_put_def console_log_def Let_def split: if_splits)
next
  case (TestFail t)
  with assms have "testFail g w t = Returned w'" by simp
  from testFail_Returned [OF this] assms(3,4) show ?thesis by (auto simp: output_write_def)
next
  case (Coverage sid cov)
  with assms have k: "sid \<noteq> ''__proto__''" by simp
  from sessions_get_no_proto [OF assms(3,4) k] Coverage assms show ?thesis
    by (auto simp: coverage_def split: if_splits)
qed (use assms in \<open>auto simp: suiteEnd_def testPass_def testSkip_def console_log_def
        output_write_def Let_def split: if_splits\<close>)

lemma prototypes_run:
  "run g evs w0 = Returned w \<Longrightarrow> proto_free evs \<Longrightarrow> sessions_proto w0 = None \<Longrightarrow> \<not> polluted w0 \<Longrightarrow>
   sessions_proto w = None \<and> \<not> polluted w"
proof (induction evs arbitrary: w0)
  case Nil
  then show ?case by simp
next
  case (Cons p evs)
  obtain h e where p: "p = (h, e)" by (cases p)
  from Cons.prems p obtain w1 where s: "step g h e w0 = Returned w1" and r: "run g evs w1 = Returned w"
    using run_Cons_Returned by blast
  from Cons.prems(2) p have f: "proto_free_event (h, e)" and fs: "proto_free evs"
    by (simp_all add: proto_free_def)
  from prototypes_step [OF s f Cons.prems(3,4)] Cons.IH [OF r fs] show ?case by simp
qed

subsection \<open>The session registry along a run\<close>

lemma sessions_suiteStart:
  "sessions (suiteStart h w r) =
     (if has_parent (h r) \<or> sessionId (h r) = ''__proto__'' then sessions w
      else own_set (sessions w) (sessionId (h r)) \<lparr>session_suite = r, session_coverage = False\<rparr>)"
  by (simp add: suiteStart_def sessions_put_def Let_def console_log_def)

lemma sessions_coverage:
  assumes "coverage w sid cov = Returned w'"
  shows "sessions w' = sessions w
         \<or> (\<exists>s. own_get (sessions w) sid = Some s
                \<and> sessions w' = own_set (sessions w) sid (s\<lparr>session_coverage := True\<rparr>))"
proof (cases "mode w = ''client'' \<or> sid \<noteq> []")
  case True
  show ?thesis
  proof (cases "sessions_get w sid")
    case (OwnSession s)
    then have "own_get (sessions w) sid = Some s" by (simp add: sessions_get_Own)
    with OwnSession True assms show ?thesis by (auto simp: coverage_def)
  qed (use True assms in \<open>auto simp: coverage_def\<close>)
next
  case False
  with assms show ?thesis by (auto simp: coverage_def)
qed

lemma sessions_step_other:
  assumes "step g h e w = Returned w'" and "\<forall>r. e \<noteq> SuiteStart r" and "\<forall>sid cov. e \<noteq> Coverage sid cov"
  shows "sessions w' = sessions w"
proof (cases e)
  case (TestFail t)
  with assms have "testFail g w t = Returned w'" by simp
  from testFail_Returned [OF this] show ?thesis by (auto simp: output_write_def)
qed (use assms in \<open>auto simp: suiteEnd_def testPass_def testSkip_def console_log_def
        output_write_def Let_def split: if_splits\<close>)

lemma keys_coverage:
  assumes "coverage w sid cov = Returned w'"
  shows "fst ` set (sessions w') = fst ` set (sessions w)"
proof -
  from sessions_coverage [OF assms] show ?thesis
  proof
    assume "sessions w' = sessions w"
    then show ?thesis by simp
  next
    assume "\<exists>s. own_get (sessions w) sid = Some s
                \<and> sessions w' = own_set (sessions w) sid (s\<lparr>session_coverage := True\<rparr>)"
    then obtain s where o: "own_get (sessions w) sid = Some s"
      and e: "sessions w' = own_set (sessions w) sid (s\<lparr>session_coverage := True\<rparr>)" by blast
    show ?thesis unfolding e keys_own_set by (rule insert_key_absorb [OF o])
  qed
qed

lemma registrations_Cons: "registrations (p # evs) = registrations [p] @ registrations evs"
  by (cases p, cases "snd p") auto

lemma registered_Cons: "registered (p # evs) = registered [p] \<union> registered evs"
  unfolding registered_def by (subst registrations_Cons) (simp add: image_Un)

lemma proto_free_registered: "proto_free evs \<Longrightarrow> ''__proto__'' \<notin> registered evs"
proof (induction evs)
  case Nil
  then show ?case by (simp add: registered_def)
next
  case (Cons p evs)
  obtain h e where p: "p = (h, e)" by (cases p)
  from Cons.prems have f: "proto_free_event p" and fs: "proto_free evs"
    by (simp_all add: proto_free_def)
  from f have "''__proto__'' \<notin> registered [p]"
    unfolding p by (cases e) (auto simp: registered_def)
  with Cons.IH [OF fs] show ?case by (subst registered_Cons) simp
qed

lemma keys_step:
  assumes "step g h e w = Returned w'" and "''__proto__'' \<notin> registered [(h, e)]"
  shows "fst ` set (sessions w') = fst ` set (sessions w) \<union> registered [(h, e)]"
proof (cases e)
  case (SuiteStart r)
  with assms have "w' = suiteStart h w r" by simp
  then show ?thesis using SuiteStart assms(2)
    by (auto simp: sessions_suiteStart keys_own_set registered_def)
next
  case (Coverage sid cov)
  with assms show ?thesis by (simp add: keys_coverage registered_def)
qed (use sessions_step_other [OF assms(1)] in \<open>auto simp: registered_def\<close>)

lemma sessions_proto_step:
  assumes "step g h e w = Returned w'" and "''__proto__'' \<notin> registered [(h, e)]"
    and "sessions_proto w = None"
  shows "sessions_proto w' = None"
proof (cases e)
  case (SuiteStart r)
  with assms show ?thesis
    by (auto simp: suiteStart_def sessions_put_def console_log_def Let_def registered_def
        split: if_splits)
next
  case (TestFail t)
  with assms have "testFail g w t = Returned w'" by simp
  from testFail_Returned [OF this] assms(3) show ?thesis by (auto simp: output_write_def)
next
  case (Coverage sid cov)
  with assms show ?thesis
    by (auto simp: coverage_def sessions_get_def object_prototype_get_def
        split: if_splits session_lookup.splits option.splits)
qed (use assms in \<open>auto simp: suiteEnd_def testPass_def testSkip_def console_log_def
        output_write_def Let_def split: if_splits\<close>)

lemma keys_run:
  "run g evs w0 = Returned w \<Longrightarrow> ''__proto__'' \<notin> registered evs \<Longrightarrow>
   fst ` set (sessions w) = fst ` set (sessions w0) \<union> registered evs"
proof (induction evs arbitrary: w0)
  case Nil
  then show ?case by (simp add: registered_def)
next
  case (Cons p evs)
  obtain h e where p: "p = (h, e)" by (cases p)
  from Cons.prems p obtain w1 where s: "step g h e w0 = Returned w1" and r: "run g evs w1 = Returned w"
    using run_Cons_Returned by blast
  have u: "registered (p # evs) = registered [(h, e)] \<union> registered evs"
    unfolding p by (rule registered_Cons)
  with Cons.prems(2) have f: "''__proto__'' \<notin> registered [(h, e)]" and fs: "''__proto__'' \<notin> registered evs"
    by simp_all
  from u Cons.IH [OF r fs] keys_step [OF s f] show ?case by auto
qed

lemma sessions_proto_run:
  "run g evs w0 = Returned w \<Longrightarrow> ''__proto__'' \<notin> registered evs \<Longrightarrow> sessions_proto w0 = None \<Longrightarrow>
   sessions_proto w = None"
proof (induction evs arbitrary: w0)
  case Nil
  then show ?case by simp
next
  case (Cons p evs)
  obtain h e where p: "p = (h, e)" by (cases p)
  from Cons.prems p obtain w1 where s: "step g h e w0 = Returned w1" and r: "run g evs w1 = Returned w"
    using run_Cons_Returned by blast
  have u: "registered (p # evs) = registered [(h, e)] \<union> registered evs"
    unfolding p by (rule registered_Cons)
  with Cons.prems(2) have f: "''__proto__'' \<notin> registered [(h, e)]" and fs: "''__proto__'' \<notin> registered evs"
    by simp_all
  from sessions_proto_step [OF s f Cons.prems(3)] Cons.IH [OF r fs] show ?case by simp
qed

subsection \<open>Coverage before registration\<close>

text \<open>
  C10 as stated fails for an identifier that names a member of \<^verbatim>\<open>Object.prototype\<close>: the lookup
  finds the inherited member, the call returns and the snapshot is merged, although no session
  was registered.
\<close>

theorem coverage_before_registration_counterexample:
  "or_empty ''constructor'' \<notin> registered []
   \<and> coverage example_world ''constructor'' [''x.js'' \<mapsto> 3]
       = Returned (example_world\<lparr>collector := [''x.js'' \<mapsto> 3]\<rparr>)
   \<and> sessions (example_world\<lparr>collector := [''x.js'' \<mapsto> 3]\<rparr>) = []"
  by (simp add: registered_def coverage_def lookup_defs example_defs)

text \<open>
  C10, as amended. When \<^verbatim>\<open>coverage(sessionId, snapshot)\<close> takes the accepted branch (client
  mode or a non-empty identifier), the identifier names no member of \<^verbatim>\<open>Object.prototype\<close>, and
  no root \<^verbatim>\<open>suiteStart\<close> of the run so far has registered a session under that identifier or
  under \<^verbatim>\<open>__proto__\<close>, the call throws a \<^verbatim>\<open>TypeError\<close> and leaves the reporter as it was: the
  snapshot is not merged into the collector.
\<close>

theorem coverage_before_registration:
  assumes "sessions w0 = []" and "sessions_proto w0 = None" and "run g evs w0 = Returned w"
    and "or_empty sid \<notin> registered evs" and "''__proto__'' \<notin> registered evs"
    and "or_empty sid \<notin> set object_prototype_members"
    and "mode w = ''client'' \<or> sid \<noteq> []"
  shows "coverage w sid cov = Threw TypeError w
         \<and> collector (world_of (coverage w sid cov)) = collector w"
proof -
  from keys_run [OF assms(3,5)] assms(1,4) have "sid \<notin> fst ` set (sessions w)" by simp
  then have o: "own_get (sessions w) sid = None" by (simp add: own_get_None)
  from sessions_proto_run [OF assms(3,5,2)] have p: "sessions_proto w = None" .
  from o p assms(6) have "sessions_get w sid = NoSession \<or> sessions_get w sid = InheritedTrue"
    using proto_member by (auto simp: sessions_get_def object_prototype_get_def)
  with assms(7) show ?thesis by (auto simp: coverage_def)
qed

theorem coverage_before_registration_witness:
  "sessions example_world = [] \<and> sessions_proto example_world = None
   \<and> run example_message [(example_heap, SuiteStart 0), (example_heap, TestPass)] example_world
       = Returned (world_of (run example_message [(example_heap, SuiteStart 0), (example_heap, TestPass)]
                     example_world))
   \<and> or_empty ''B'' \<notin> registered [(example_heap, SuiteStart 0), (example_heap, TestPass)]
   \<and> ''__proto__'' \<notin> registered [(example_heap, SuiteStart 0), (example_heap, TestPass)]
   \<and> or_empty ''B'' \<notin> set object_prototype_members
   \<and> coverage (world_of (run example_message [(example_heap, SuiteStart 0), (example_heap, TestPass)]
                    example_world)) ''B'' [''x.js'' \<mapsto> 3]
       = Threw TypeError (world_of (run example_message [(example_heap, SuiteStart 0), (example_heap, TestPass)]
                    example_world))"
proof -
  let ?evs = "[(example_heap, SuiteStart 0), (example_heap, TestPass)]"
  have a: "sessions example_world = []" and a': "sessions_proto example_world = None"
    by (simp_all add: example_defs)
  have b: "run example_message ?evs example_world
             = Returned (world_of (run example_message ?evs example_world))"
    by (simp add: handler_defs example_defs)
  have c: "or_empty ''B'' \<notin> registered ?evs" and c': "''__proto__'' \<notin> registered ?evs"
    by (simp_all add: registered_def example_heap_def)
  have m: "or_empty ''B'' \<notin> set object_prototype_members"
    by (simp add: object_prototype_members_def)
  have d: "mode (world_of (run example_message ?evs example_world)) = ''client'' \<or> ''B'' \<noteq> []" by simp
  from coverage_before_registration [OF a a' b c c' m d] a a' b c c' m show ?thesis by blast
qed

subsection \<open>What \<^verbatim>\<open>runEnd\<close> prints\<close>

lemma mset_forin: "mset (forin d) = mset d"
  by (simp add: forin_def)

lemma length_forin: "length (forin d) = length d"
  using arg_cong [OF mset_forin, of size d] by simp

lemma count_sessions_sum:
  "count_sessions h (map (\<lambda>p. (fst p, OwnSession (snd p))) d) (e, t, f, k) =
     Inr (e + length d, t + session_total numTests h d, f + session_total numFailedTests h d,
          k + session_total numSkippedTests h d)"
  by (induction d arbitrary: e t f k) (auto simp: session_total_def)

lemma session_total_forin: "session_total f h (forin d) = session_total f h d"
proof -
  have "sum_mset (image_mset (\<lambda>p. f (h (session_suite (snd p)))) (mset (forin d)))
        = sum_mset (image_mset (\<lambda>p. f (h (session_suite (snd p)))) (mset d))"
    by (simp only: mset_forin)
  then show ?thesis
    unfolding session_total_def by (simp only: sum_mset_sum_list [symmetric] mset_map)
qed

lemma foldl_console_log:
  "foldl (\<lambda>w' t. console_log (F t) w') w xs = w\<lparr>console := console w @ map F xs\<rparr>"
  by (induction xs arbitrary: w) (simp_all add: console_log_def)

lemma print_errors_own:
  "print_errors secs (map (\<lambda>p. (fst p, OwnList (snd p))) d) w =
     Returned (w\<lparr>console := console w @ map (error_line secs) (concat (map snd d))\<rparr>)"
proof (induction d arbitrary: w)
  case Nil
  then show ?case by simp
next
  case (Cons p d)
  have "foldl (\<lambda>w' t. console_log [render_error secs t, unstyled NL] w') w (snd p)
        = w\<lparr>console := console w @ map (error_line secs) (snd p)\<rparr>"
    using foldl_console_log [of "error_line secs" w "snd p"] by (simp add: error_line_def)
  then show ?case by (simp add: Cons.IH)
qed

lemma runEnd_unfold:
  assumes "sessions_inherited w = []" and "errors_inherited w = []"
  shows "runEnd secs h w = writeCoverage (w\<lparr>console := console w @ runEnd_lines secs h w\<rparr>)"
  unfolding runEnd_def sessions_forin_own [OF assms(1)] errors_forin_own [OF assms(2)]
    count_sessions_sum print_errors_own
  by (simp add: session_total_forin length_forin Let_def
      runEnd_lines_def errors_header_def totals_line_def console_log_def)

lemma console_writeCoverage: "console (world_of (writeCoverage w)) = console w"
  by (simp add: writeCoverage_def writeReport_def split: sum.splits)

lemma console_runEnd:
  assumes "sessions_inherited w = []" and "errors_inherited w = []"
  shows "console (world_of (runEnd secs h w)) = console w @ runEnd_lines secs h w"
  by (simp add: runEnd_unfold [OF assms] console_writeCoverage)

lemma plain_total_message:
  "plain (total_message e t f k fatal) =
     NL @ ''TOTAL: tested '' @ show_nat e @ '' platforms, '' @ show_nat f @ ''/'' @ show_nat t @ '' failed''
     @ (if k \<noteq> 0 then '' ('' @ show_nat k @ '' skipped)'' else [])
     @ (if fatal \<and> f = 0 then ''; fatal error occurred'' else [])"
  by (simp add: total_message_def plain_def chalk_def unstyled_def)

lemma suffix_rev_prefix: "suffix xs ys \<longleftrightarrow> prefix (rev xs) (rev ys)"
  by (simp add: suffix_to_prefix)

lemma fatal_suffix_iff:
  "suffix ''; fatal error occurred''
     (pre @ '' failed'' @ (if k \<noteq> 0 then '' ('' @ show_nat k @ '' skipped)'' else [])
      @ (if b then ''; fatal error occurred'' else []))
   \<longleftrightarrow> b"
  by (simp add: suffix_rev_prefix)

lemma last_runEnd_lines:
  "last (runEnd_lines secs h w) =
     [chalk [if session_total numFailedTests h (sessions w) > 0 \<or> hasErrors w then Red else Green]
        (total_message (length (sessions w)) (session_total numTests h (sessions w))
           (session_total numFailedTests h (sessions w))
           (session_total numSkippedTests h (sessions w)) (hasErrors w))]"
  by (simp add: runEnd_lines_def totals_line_def)

lemma last_console_runEnd:
  assumes "sessions_inherited w = []" and "errors_inherited w = []"
  shows "last (console (world_of (runEnd secs h w))) = last (runEnd_lines secs h w)"
proof -
  have "runEnd_lines secs h w \<noteq> []" by (simp add: runEnd_lines_def)
  then show ?thesis by (simp add: console_runEnd [OF assms])
qed

subsection \<open>The totals line and the fatal-error flag\<close>

text \<open>
  C7, as amended. When \<^verbatim>\<open>runEnd\<close> reaches the totals line (its two loops visit own keys only),
  the line is red when the failed-test count is positive or the fatal-error flag is set, and
  green otherwise; it ends with \<^verbatim>\<open>; fatal error occurred\<close> exactly when the flag is set and the
  failed-test count is zero.
\<close>

theorem total_line_fatal:
  assumes "sessions_inherited w = []" and "errors_inherited w = []"
  shows "last (console (world_of (runEnd secs h w))) =
     [chalk [if session_total numFailedTests h (sessions w) > 0 \<or> hasErrors w then Red else Green]
        (total_message (length (sessions w)) (session_total numTests h (sessions w))
           (session_total numFailedTests h (sessions w))
           (session_total numSkippedTests h (sessions w)) (hasErrors w))]
   \<and> (suffix ''; fatal error occurred''
         (plain (total_message (length (sessions w)) (session_total numTests h (sessions w))
           (session_total numFailedTests h (sessions w))
           (session_total numSkippedTests h (sessions w)) (hasErrors w)))
        \<longleftrightarrow> hasErrors w \<and> session_total numFailedTests h (sessions w) = 0)"
proof -
  have "suffix ''; fatal error occurred''
         (plain (total_message (length (sessions w)) (session_total numTests h (sessions w))
           (session_total numFailedTests h (sessions w))
           (session_total numSkippedTests h (sessions w)) (hasErrors w)))
        \<longleftrightarrow> hasErrors w \<and> session_total numFailedTests h (sessions w) = 0"
    unfolding plain_total_message
    using fatal_suffix_iff [of "NL @ ''TOTAL: tested '' @ show_nat (length (sessions w)) @ '' platforms, ''
         @ show_nat (session_total numFailedTests h (sessions w)) @ ''/''
         @ show_nat (session_total numTests h (sessions w))"]
    by simp
  then show ?thesis by (simp add: last_console_runEnd [OF assms] last_runEnd_lines)
qed

theorem total_line_fatal_witness:
  "sessions_inherited (fatal_world ''B'' 1) = [] \<and> errors_inherited (fatal_world ''B'' 1) = []
   \<and> last (console (world_of (runEnd example_seconds example_heap (fatal_world ''B'' 1))))
     = [[([Red, Bold], NL @ ''TOTAL''),
         ([Red], '': tested 1 platforms, 0/5 failed (2 skipped); fatal error occurred'')]]
   \<and> suffix ''; fatal error occurred'' (plain (total_message 1 5 0 2 True))
   \<and> plain (total_message 1 5 0 2 True)
       = NL @ ''TOTAL: tested 1 platforms, 0/5 failed (2 skipped); fatal error occurred''"
proof -
  have a: "sessions_inherited (fatal_world ''B'' 1) = []"
    and b: "errors_inherited (fatal_world ''B'' 1) = []"
    by (simp_all add: lookup_defs example_defs)
  have s: "sessions (fatal_world ''B'' 1) = [(''B'', \<lparr>session_suite = 1, session_coverage = False\<rparr>)]"
    and f: "hasErrors (fatal_world ''B'' 1)"
    by (simp_all add: example_defs)
  have n: "session_total numTests example_heap (sessions (fatal_world ''B'' 1)) = 5"
    "session_total numFailedTests example_heap (sessions (fatal_world ''B'' 1)) = 0"
    "session_total numSkippedTests example_heap (sessions (fatal_world ''B'' 1)) = 2"
    "length (sessions (fatal_world ''B'' 1)) = 1"
    unfolding s by (simp_all add: session_total_def example_heap_def)
  have m: "[chalk [Red] (total_message 1 5 0 2 True)]
           = [[([Red, Bold], NL @ ''TOTAL''),
               ([Red], '': tested 1 platforms, 0/5 failed (2 skipped); fatal error occurred'')]]"
    by (simp add: total_message_def chalk_def unstyled_def show_defs)
  have p: "plain (total_message 1 5 0 2 True)
       = NL @ ''TOTAL: tested 1 platforms, 0/5 failed (2 skipped); fatal error occurred''"
    by (simp add: plain_total_message show_defs)
  from total_line_fatal [OF a b, of example_seconds example_heap] a b m p show ?thesis
    unfolding n using f by simp
qed

text \<open>
  C7 as stated fails where the flag is set and a test has failed: the totals line of a run
  with one session, ten tests and one failure carries no suffix.
\<close>

theorem total_line_fatal_counterexample:
  "hasErrors (fatal_world ''A'' 0)
   \<and> last (console (world_of (runEnd example_seconds example_heap (fatal_world ''A'' 0))))
       = [[([Red, Bold], NL @ ''TOTAL''), ([Red], '': tested 1 platforms, 1/10 failed'')]]
   \<and> plain (hd (last (console (world_of (runEnd example_seconds example_heap (fatal_world ''A'' 0))))))
       = NL @ ''TOTAL: tested 1 platforms, 1/10 failed''
   \<and> \<not> suffix ''; fatal error occurred''
         (plain (hd (last (console (world_of (runEnd example_seconds example_heap (fatal_world ''A'' 0)))))))"
proof -
  have a: "sessions_inherited (fatal_world ''A'' 0) = []"
    and b: "errors_inherited (fatal_world ''A'' 0) = []"
    by (simp_all add: lookup_defs example_defs)
  show ?thesis
    unfolding last_console_runEnd [OF a b] last_runEnd_lines
    by (simp add: session_total_def example_defs
        total_message_def plain_def chalk_def unstyled_def show_defs suffix_rev_prefix)
qed

subsection \<open>Finalization without a prior artifact\<close>

lemma checkCoverageFinal_iff:
  "checkCoverageFinal fs \<longleftrightarrow> (\<exists>b. fs DEFAULT_COVERAGE_FILENAME = Some (File True b))"
proof (cases "fs DEFAULT_COVERAGE_FILENAME")
  case None
  then show ?thesis by (simp add: checkCoverageFinal_def)
next
  case (Some f)
  then show ?thesis by (cases f) (simp add: checkCoverageFinal_def)
qed

text \<open>
  C4. The prior coverage artifact is the file at the well-known default path, the one whose
  presence the reconciliation checks. When that file is absent or unreadable, \<^verbatim>\<open>_writeCoverage\<close>
  returns normally, whatever the configured output path is: the collector is what it was
  (nothing is merged from disk), the report of the collector is written to the configured
  path and no other file changes. The same holds of \<^verbatim>\<open>runEnd\<close> as a whole when its two loops
  visit own keys only, so that it reaches \<^verbatim>\<open>_writeCoverage\<close>.
\<close>

theorem missing_artifact_noop:
  assumes "disk w DEFAULT_COVERAGE_FILENAME = None
           \<or> (\<exists>b. disk w DEFAULT_COVERAGE_FILENAME = Some (File False b))"
  shows "(\<exists>w'. writeCoverage w = Returned w'
           \<and> collector w' = collector w
           \<and> (\<exists>r. disk w' (filename w) = Some (File r (Json (collector w))))
           \<and> (\<forall>p. p \<noteq> filename w \<longrightarrow> disk w' p = disk w p))
         \<and> (sessions_inherited w = [] \<and> errors_inherited w = [] \<longrightarrow>
             (\<exists>w'. runEnd secs h w = Returned w'
               \<and> collector w' = collector w
               \<and> (\<exists>r. disk w' (filename w) = Some (File r (Json (collector w))))
               \<and> (\<forall>p. p \<noteq> filename w \<longrightarrow> disk w' p = disk w p)))"
proof -
  from assms have n: "\<not> checkCoverageFinal (disk w)" by (auto simp: checkCoverageFinal_iff)
  then have "writeCoverage w = Returned (writeReport w)" by (simp add: writeCoverage_def)
  then have 1: "\<exists>w'. writeCoverage w = Returned w'
           \<and> collector w' = collector w
           \<and> (\<exists>r. disk w' (filename w) = Some (File r (Json (collector w))))
           \<and> (\<forall>p. p \<noteq> filename w \<longrightarrow> disk w' p = disk w p)"
    by (simp add: writeReport_def)
  have 2: "\<exists>w'. runEnd secs h w = Returned w'
               \<and> collector w' = collector w
               \<and> (\<exists>r. disk w' (filename w) = Some (File r (Json (collector w))))
               \<and> (\<forall>p. p \<noteq> filename w \<longrightarrow> disk w' p = disk w p)"
    if i: "sessions_inherited w = []" "errors_inherited w = []"
  proof -
    from n have "runEnd secs h w = Returned (writeReport (w\<lparr>console := console w @ runEnd_lines secs h w\<rparr>))"
      by (simp add: runEnd_unfold [OF i] writeCoverage_def)
    then show ?thesis by (simp add: writeReport_def)
  qed
  from 1 2 show ?thesis by blast
qed

theorem missing_artifact_noop_witness:
  "(disk (custom_world [''custom.json'' \<mapsto> File True Garbage]) DEFAULT_COVERAGE_FILENAME = None
    \<or> (\<exists>b. disk (custom_world [''custom.json'' \<mapsto> File True Garbage]) DEFAULT_COVERAGE_FILENAME
             = Some (File False b)))
   \<and> sessions_inherited (custom_world [''custom.json'' \<mapsto> File True Garbage]) = []
   \<and> errors_inherited (custom_world [''custom.json'' \<mapsto> File True Garbage]) = []
   \<and> (\<exists>w'. writeCoverage (custom_world [''custom.json'' \<mapsto> File True Garbage]) = Returned w'
        \<and> collector w' = [''x.js'' \<mapsto> 3]
        \<and> (\<exists>r. disk w' ''custom.json'' = Some (File r (Json [''x.js'' \<mapsto> 3]))))
   \<and> (\<exists>w'. runEnd example_seconds example_heap (custom_world [''custom.json'' \<mapsto> File True Garbage])
              = Returned w'
        \<and> collector w' = [''x.js'' \<mapsto> 3]
        \<and> (\<exists>r. disk w' ''custom.json'' = Some (File r (Json [''x.js'' \<mapsto> 3]))))"
proof -
  let ?w = "custom_world [''custom.json'' \<mapsto> File True Garbage]"
  have a: "disk ?w DEFAULT_COVERAGE_FILENAME = None
           \<or> (\<exists>b. disk ?w DEFAULT_COVERAGE_FILENAME = Some (File False b))"
    by (simp add: custom_world_def example_defs)
  have i: "sessions_inherited ?w = []" "errors_inherited ?w = []"
    by (simp_all add: custom_world_def example_defs lookup_defs)
  have f: "filename ?w = ''custom.json''" and c: "collector ?w = [''x.js'' \<mapsto> 3]"
    by (simp_all add: custom_world_def example_defs)
  from missing_artifact_noop [OF a, of example_seconds example_heap] a i show ?thesis
    unfolding f c by blast
qed

subsection \<open>Finalization with a malformed prior artifact\<close>

text \<open>
  C8 fails on the code where the configured output path is not the default path: the presence
  check looks at the default path and the read takes the configured path. With a malformed
  file at the default path and a well-formed one at \<^verbatim>\<open>custom.json\<close>, finalization parses the
  latter, merges it and writes the report; with nothing at the default path, a malformed
  \<^verbatim>\<open>custom.json\<close> is never parsed and is overwritten.
\<close>

theorem malformed_artifact_not_parsed:
  "writeCoverage (custom_world [DEFAULT_COVERAGE_FILENAME \<mapsto> File True Garbage,
                                ''custom.json'' \<mapsto> File True (Json [''x.js'' \<mapsto> 5])])
     = Returned ((custom_world [DEFAULT_COVERAGE_FILENAME \<mapsto> File True Garbage,
                                ''custom.json'' \<mapsto> File True (Json [''x.js'' \<mapsto> 5])])
                  \<lparr>collector := [''x.js'' \<mapsto> 8],
                    disk := [DEFAULT_COVERAGE_FILENAME \<mapsto> File True Garbage,
                             ''custom.json'' \<mapsto> File True (Json [''x.js'' \<mapsto> 8])]\<rparr>)
   \<and> writeCoverage (custom_world [''custom.json'' \<mapsto> File True Garbage])
     = Returned ((custom_world [''custom.json'' \<mapsto> File True Garbage])
                  \<lparr>disk := [''custom.json'' \<mapsto> File True (Json [''x.js'' \<mapsto> 3])]\<rparr>)"
  apply (intro conjI)
   apply (simp add: disk_defs example_defs fun_eq_iff)
  apply (simp add: disk_defs example_defs fun_eq_iff)
  done

text \<open>
  With the default path as output path the check and the read agree, and a malformed prior
  artifact stops finalization with the parse error before anything is written. A missing
  file at the configured path, with one present at the default path, stops it as well.
\<close>

lemma malformed_artifact_default_path:
  assumes "filename w = DEFAULT_COVERAGE_FILENAME"
    and "disk w DEFAULT_COVERAGE_FILENAME = Some (File True Garbage)"
  shows "writeCoverage w = Threw SyntaxError w"
  using assms by (simp add: writeCoverage_def checkCoverageFinal_def readFileSync_def JSON_parse_def)

lemma configured_file_missing:
  "writeCoverage (custom_world [DEFAULT_COVERAGE_FILENAME \<mapsto> File True (Json Map.empty)])
     = Threw ENOENT (custom_world [DEFAULT_COVERAGE_FILENAME \<mapsto> File True (Json Map.empty)])"
  by (simp add: disk_defs example_defs)

subsection \<open>Registering a session\<close>

lemma sessions_get_frame:
  assumes "sessions_proto w' = sessions_proto w" and "polluted w' = polluted w"
    and "own_get (sessions w') k = own_get (sessions w) k"
  shows "sessions_get w' k = sessions_get w k"
proof -
  from assms(1,2) have "object_prototype_get w' k = object_prototype_get w k"
    by (simp add: object_prototype_get_def)
  with assms show ?thesis by (auto simp: sessions_get_def split: option.splits)
qed

text \<open>
  C9. \<^verbatim>\<open>suiteStart\<close> never throws. For a suite without parent it assigns a fresh entry for this
  suite to the key \<^verbatim>\<open>sessionId || ''\<close> of the registry, whether or not the key had an entry, and
  it prints the line naming the session exactly when the identifier is not empty; nothing but
  the registry and the console changes. For a key other than \<^verbatim>\<open>__proto__\<close> the assignment makes
  the entry an own property: the key looks up the fresh entry, every other key looks up what
  it did, and the set of own keys gains the key. For the key \<^verbatim>\<open>__proto__\<close> the assignment
  replaces the prototype of the registry by the fresh entry and leaves the own properties as
  they are; the key then looks up the fresh entry as well. For a suite with a parent
  \<^verbatim>\<open>suiteStart\<close> changes nothing.
\<close>

theorem suiteStart_registers:
  "(\<not> has_parent (h r) \<longrightarrow>
      console (suiteStart h w r)
          = console w @
            (if sessionId (h r) \<noteq> []
             then [[[([], NL @ [CHR 0xE2, CHR 0x80, CHR 0xA3] @ '' Created session '' @ name (h r)
                               @ '' ('' @ sessionId (h r) @ '')'')]]]
             else [])
      \<and> suiteStart h w r
          = w\<lparr>sessions := sessions (suiteStart h w r),
               sessions_proto := sessions_proto (suiteStart h w r),
               console := console (suiteStart h w r)\<rparr>
      \<and> (or_empty (sessionId (h r)) \<noteq> ''__proto__'' \<longrightarrow>
           own_get (sessions (suiteStart h w r)) (or_empty (sessionId (h r)))
             = Some \<lparr>session_suite = r, session_coverage = False\<rparr>
           \<and> sessions_get (suiteStart h w r) (or_empty (sessionId (h r)))
               = OwnSession \<lparr>session_suite = r, session_coverage = False\<rparr>
           \<and> (\<forall>k. k \<noteq> or_empty (sessionId (h r)) \<longrightarrow>
                  own_get (sessions (suiteStart h w r)) k = own_get (sessions w) k
                  \<and> sessions_get (suiteStart h w r) k = sessions_get w k)
           \<and> fst ` set (sessions (suiteStart h w r))
               = insert (or_empty (sessionId (h r))) (fst ` set (sessions w))
           \<and> sessions_proto (suiteStart h w r) = sessions_proto w)
      \<and> (or_empty (sessionId (h r)) = ''__proto__'' \<longrightarrow>
           sessions_proto (suiteStart h w r) = Some \<lparr>session_suite = r, session_coverage = False\<rparr>
           \<and> sessions (suiteStart h w r) = sessions w
           \<and> (own_get (sessions w) ''__proto__'' = None \<longrightarrow>
                  sessions_get (suiteStart h w r) ''__proto__''
                    = ProtoSession \<lparr>session_suite = r, session_coverage = False\<rparr>)))
   \<and> (has_parent (h r) \<longrightarrow> suiteStart h w r = w)"
proof (cases "has_parent (h r)")
  case True
  then show ?thesis by (simp add: suiteStart_def)
next
  case False
  let ?w' = "suiteStart h w r"
  have c: "console ?w'
          = console w @
            (if sessionId (h r) \<noteq> []
             then [[[([], NL @ [CHR 0xE2, CHR 0x80, CHR 0xA3] @ '' Created session '' @ name (h r)
                               @ '' ('' @ sessionId (h r) @ '')'')]]]
             else [])"
    using False by (simp add: suiteStart_def Let_def console_log_def sessions_put_def unstyled_def)
  have e: "?w' = w\<lparr>sessions := sessions ?w', sessions_proto := sessions_proto ?w', console := console ?w'\<rparr>"
    using False by (simp add: suiteStart_def Let_def console_log_def sessions_put_def)
  have p: "sessions_proto ?w' = Some \<lparr>session_suite = r, session_coverage = False\<rparr>
           \<and> sessions ?w' = sessions w
           \<and> (own_get (sessions w) ''__proto__'' = None \<longrightarrow>
                  sessions_get ?w' ''__proto__''
                    = ProtoSession \<lparr>session_suite = r, session_coverage = False\<rparr>)"
    if "or_empty (sessionId (h r)) = ''__proto__''"
    using False that
    by (simp add: suiteStart_def Let_def console_log_def sessions_put_def sessions_get_def
        object_prototype_get_def)
  have o: "own_get (sessions ?w') (or_empty (sessionId (h r)))
             = Some \<lparr>session_suite = r, session_coverage = False\<rparr>
           \<and> sessions_get ?w' (or_empty (sessionId (h r)))
               = OwnSession \<lparr>session_suite = r, session_coverage = False\<rparr>
           \<and> (\<forall>k. k \<noteq> or_empty (sessionId (h r)) \<longrightarrow>
                  own_get (sessions ?w') k = own_get (sessions w) k
                  \<and> sessions_get ?w' k = sessions_get w k)
           \<and> fst ` set (sessions ?w') = insert (or_empty (sessionId (h r))) (fst ` set (sessions w))
           \<and> sessions_proto ?w' = sessions_proto w"
    if k: "or_empty (sessionId (h r)) \<noteq> ''__proto__''"
  proof -
    from False k have s: "sessions ?w' = own_set (sessions w) (sessionId (h r))
                             \<lparr>session_suite = r, session_coverage = False\<rparr>"
      by (simp add: sessions_suiteStart)
    from False k have q: "sessions_proto ?w' = sessions_proto w" and u: "polluted ?w' = polluted w"
      by (simp_all add: suiteStart_def Let_def console_log_def sessions_put_def)
    have g: "own_get (sessions ?w') (sessionId (h r)) = Some \<lparr>session_suite = r, session_coverage = False\<rparr>"
      unfolding s by (simp add: own_get_set)
    have f: "own_get (sessions ?w') k = own_get (sessions w) k" if "k \<noteq> sessionId (h r)" for k
      unfolding s using that by (simp add: own_get_set)
    from g have "sessions_get ?w' (sessionId (h r)) = OwnSession \<lparr>session_suite = r, session_coverage = False\<rparr>"
      by (simp add: sessions_get_Own)
    moreover have "fst ` set (sessions ?w') = insert (sessionId (h r)) (fst ` set (sessions w))"
      unfolding s by (rule keys_own_set)
    ultimately show ?thesis using g f q sessions_get_frame [OF q u f] by simp
  qed
  from False c e p o show ?thesis by blast
qed

theorem suiteStart_registers_witness:
  "\<not> has_parent (example_heap 0)
   \<and> own_get (sessions (fatal_world ''A'' 7)) ''A'' = Some \<lparr>session_suite = 7, session_coverage = False\<rparr>
   \<and> own_get (sessions (suiteStart example_heap (fatal_world ''A'' 7) 0)) ''A''
       = Some \<lparr>session_suite = 0, session_coverage = False\<rparr>
   \<and> sessions_get (suiteStart example_heap (fatal_world ''A'' 7) 0) ''A''
       = OwnSession \<lparr>session_suite = 0, session_coverage = False\<rparr>
   \<and> fst ` set (sessions (suiteStart example_heap (fatal_world ''A'' 7) 0)) = {''A''}
   \<and> console (suiteStart example_heap (fatal_world ''A'' 7) 0)
       = [[[([], NL @ [CHR 0xE2, CHR 0x80, CHR 0xA3] @ '' Created session chrome (A)'')]]]
   \<and> has_parent (example_heap 2)
   \<and> suiteStart example_heap (fatal_world ''A'' 7) 2 = fatal_world ''A'' 7
   \<and> \<not> has_parent (example_heap 6)
   \<and> sessions_proto (suiteStart example_heap (fatal_world ''A'' 7) 6)
       = Some \<lparr>session_suite = 6, session_coverage = False\<rparr>
   \<and> sessions (suiteStart example_heap (fatal_world ''A'' 7) 6) = sessions (fatal_world ''A'' 7)
   \<and> sessions_get (suiteStart example_heap (fatal_world ''A'' 7) 6) ''__proto__''
       = ProtoSession \<lparr>session_suite = 6, session_coverage = False\<rparr>"
  using suiteStart_registers [of example_heap 0 "fatal_world ''A'' 7"]
    suiteStart_registers [of example_heap 2 "fatal_world ''A'' 7"]
    suiteStart_registers [of example_heap 6 "fatal_world ''A'' 7"]
  by (simp add: example_defs own_get_def)

subsection \<open>Accepting coverage\<close>

lemma count_of_collector_add:
  "count_of (collector_add store cov) x = count_of store x + count_of cov x"
  by (simp add: count_of_def collector_add_def split: option.splits)

lemma dom_collector_add: "dom (collector_add store cov) = dom store \<union> dom cov"
  by (auto simp: collector_add_def split: option.splits)

text \<open>
  C5, as amended. For a call \<^verbatim>\<open>coverage(sessionId, snapshot)\<close> whose session is registered
  (the registry has an own entry under \<^verbatim>\<open>sessionId || ''\<close>): in client mode or with a non-empty
  identifier the call returns, the counts of the snapshot are added to the collector and the
  session is marked as having coverage, and nothing else changes. With an empty identifier
  outside client mode the call returns and changes nothing, registered or not.
\<close>

theorem coverage_accepts:
  "(mode w = ''client'' \<or> sid \<noteq> [] \<longrightarrow> own_get (sessions w) (or_empty sid) = Some s \<longrightarrow>
      (\<exists>w'. coverage w sid cov = Returned w'
         \<and> (\<forall>x. count_of (collector w') x = count_of (collector w) x + count_of cov x)
         \<and> dom (collector w') = dom (collector w) \<union> dom cov
         \<and> own_get (sessions w') (or_empty sid) = Some (s\<lparr>session_coverage := True\<rparr>)
         \<and> (\<forall>k. k \<noteq> or_empty sid \<longrightarrow> own_get (sessions w') k = own_get (sessions w) k)
         \<and> w' = w\<lparr>sessions := sessions w', collector := collector w'\<rparr>))
   \<and> (\<not> (mode w = ''client'' \<or> sid \<noteq> []) \<longrightarrow> coverage w sid cov = Returned w)"
proof (cases "mode w = ''client'' \<or> sid \<noteq> []")
  case False
  then show ?thesis by (simp add: coverage_def)
next
  case True
  show ?thesis
  proof (cases "own_get (sessions w) (or_empty sid) = Some s")
    case False
    with True show ?thesis by simp
  next
    case registered: True
    let ?w' = "w\<lparr>sessions := own_set (sessions w) (or_empty sid) (s\<lparr>session_coverage := True\<rparr>),
                 collector := collector_add (collector w) cov\<rparr>"
    from registered have "sessions_get w (or_empty sid) = OwnSession s"
      by (simp only: sessions_get_Own)
    with True have "coverage w sid cov = Returned ?w'"
      by (simp add: coverage_def)
    moreover have "count_of (collector ?w') x = count_of (collector w) x + count_of cov x" for x
      by (simp add: count_of_collector_add)
    moreover have "dom (collector ?w') = dom (collector w) \<union> dom cov"
      by (simp add: dom_collector_add)
    moreover have "own_get (sessions ?w') (or_empty sid) = Some (s\<lparr>session_coverage := True\<rparr>)"
      and "\<forall>k. k \<noteq> or_empty sid \<longrightarrow> own_get (sessions ?w') k = own_get (sessions w) k"
      by (simp_all add: own_get_set)
    moreover have "?w' = w\<lparr>sessions := sessions ?w', collector := collector ?w'\<rparr>" by simp
    ultimately show ?thesis using True by blast
  qed
qed

theorem coverage_accepts_witness:
  "mode (suiteStart example_heap client_world 0) = ''client''
   \<and> own_get (sessions (suiteStart example_heap client_world 0)) (or_empty ''A'')
       = Some \<lparr>session_suite = 0, session_coverage = False\<rparr>
   \<and> (\<exists>w'. coverage (suiteStart example_heap client_world 0) ''A'' [''x.js'' \<mapsto> 3] = Returned w'
         \<and> count_of (collector w') ''x.js'' = 3
         \<and> own_get (sessions w') ''A'' = Some \<lparr>session_suite = 0, session_coverage = True\<rparr>)
   \<and> mode example_world = ''runner''
   \<and> coverage example_world [] [''x.js'' \<mapsto> 3] = Returned example_world"
proof -
  let ?w = "suiteStart example_heap client_world 0"
  have m: "mode ?w = ''client''" by (simp add: example_defs handler_defs)
  have s: "own_get (sessions ?w) (or_empty ''A'') = Some \<lparr>session_suite = 0, session_coverage = False\<rparr>"
    by (simp add: example_defs handler_defs)
  have c: "count_of (collector ?w) ''x.js'' = 0"
    by (simp add: example_defs handler_defs count_of_def)
  have n: "mode example_world = ''runner''" by (simp add: example_defs)
  from coverage_accepts [of ?w "''A''" "\<lparr>session_suite = 0, session_coverage = False\<rparr>" "[''x.js'' \<mapsto> 3]"] m s
  obtain w' where "coverage ?w ''A'' [''x.js'' \<mapsto> 3] = Returned w'"
    and "count_of (collector w') ''x.js'' = count_of (collector ?w) ''x.js'' + count_of [''x.js'' \<mapsto> 3] ''x.js''"
    and "own_get (sessions w') (or_empty ''A'') = Some \<lparr>session_suite = 0, session_coverage = True\<rparr>"
    by auto
  then have "\<exists>w'. coverage ?w ''A'' [''x.js'' \<mapsto> 3] = Returned w'
         \<and> count_of (collector w') ''x.js'' = 3
         \<and> own_get (sessions w') ''A'' = Some \<lparr>session_suite = 0, session_coverage = True\<rparr>"
    using c by (auto simp: count_of_def)
  moreover from coverage_accepts [of example_world "[]" undefined "[''x.js'' \<mapsto> 3]"] n
  have "coverage example_world [] [''x.js'' \<mapsto> 3] = Returned example_world" by simp
  ultimately show ?thesis using m s n by blast
qed

text \<open>
  C5 as stated fails where no session is registered under the key: in client mode, before
  any suite has started, the call throws and the snapshot is not merged.
\<close>

theorem coverage_accepts_counterexample:
  "mode client_world = ''client''
   \<and> coverage client_world [] [''x.js'' \<mapsto> 3] = Threw TypeError client_world
   \<and> collector (world_of (coverage client_world [] [''x.js'' \<mapsto> 3])) = Map.empty"
  by (simp add: example_defs handler_defs)

subsection \<open>The summary line of a root suite\<close>

lemma truthy_hasError: "truthy (hasError c) \<longleftrightarrow> list_ex (\<lambda>s. has_error (error s)) (subsuites c)"
proof (induction c rule: hasError.induct)
  case (1 t)
  show ?case by simp
next
  case (2 n sid p nt nf ns e ts)
  show ?case
  proof (cases e)
    case None
    with 2 show ?thesis by (auto simp: list_ex_iff)
  next
    case (Some x)
    then show ?thesis by simp
  qed
qed

lemma summary_suffix_iff:
  "suffix ''; fatal error occurred'' (suite_summary s) \<longleftrightarrow> truthy (hasError (ChildSuite s))"
  unfolding suite_summary_def
  using fatal_suffix_iff [of "name s @ '': '' @ show_nat (numFailedTests s) @ ''/'' @ show_nat (numTests s) @ '' tests''"
      "numSkippedTests s" "truthy (hasError (ChildSuite s))"]
  by simp

text \<open>
  C3, as amended. For a root suite handled by \<^verbatim>\<open>suiteEnd\<close> outside client mode and with a
  session identifier, the handler prints a blank line and the summary line, and the summary
  ends with \<^verbatim>\<open>; fatal error occurred\<close> exactly when the suite itself or a suite nested in it,
  at any depth, carries an error. The errors of tests play no part.
\<close>

theorem suiteEnd_fatal_suffix:
  assumes "\<not> has_parent (h r)" and "mode w \<noteq> ''client''" and "sessionId (h r) \<noteq> []"
  shows "suiteEnd h w r
            = w\<lparr>console := console w @ [[unstyled NL],
                   [chalk [if numFailedTests (h r) \<noteq> 0 \<or> greater_than_zero (hasError (ChildSuite (h r)))
                           then Red else Green]
                      (unstyled (suite_summary (h r))) @ unstyled NL]]\<rparr>
         \<and> (suffix ''; fatal error occurred'' (suite_summary (h r))
              \<longleftrightarrow> list_ex (\<lambda>s. has_error (error s)) (subsuites (ChildSuite (h r))))"
  using assms by (simp add: suiteEnd_def Let_def console_log_def summary_suffix_iff truthy_hasError)

theorem suiteEnd_fatal_suffix_witness:
  "\<not> has_parent (example_heap 5) \<and> mode example_world \<noteq> ''client'' \<and> sessionId (example_heap 5) \<noteq> []
   \<and> suiteEnd example_heap example_world 5
       = example_world\<lparr>console := [[unstyled NL],
            [chalk [Red] (unstyled ''outer: 0/2 tests failed; fatal error occurred'') @ unstyled NL]]\<rparr>
   \<and> suffix ''; fatal error occurred'' (suite_summary (example_heap 5))
   \<and> list_ex (\<lambda>s. has_error (error s)) (subsuites (ChildSuite (example_heap 5)))"
proof -
  have a: "\<not> has_parent (example_heap 5)" and b: "mode example_world \<noteq> ''client''"
    and c: "sessionId (example_heap 5) \<noteq> []"
    by (simp_all add: example_defs)
  have d: "list_ex (\<lambda>s. has_error (error s)) (subsuites (ChildSuite (example_heap 5)))"
    by (simp add: example_defs)
  have e: "suiteEnd example_heap example_world 5
       = example_world\<lparr>console := [[unstyled NL],
            [chalk [Red] (unstyled ''outer: 0/2 tests failed; fatal error occurred'') @ unstyled NL]]\<rparr>"
    by (simp add: example_defs handler_defs suite_summary_def show_defs)
  from suiteEnd_fatal_suffix [of example_heap 5 example_world] a b c d e show ?thesis by blast
qed

text \<open>
  C3 as stated fails for the errors of tests: a root suite whose only test failed with an
  error is summarized without the suffix, and so is a suite with a failed-test count of 0 and
  a test that carries an error.
\<close>

theorem suiteEnd_fatal_suffix_counterexample:
  "\<not> has_parent (example_heap 3) \<and> mode example_world \<noteq> ''client'' \<and> sessionId (example_heap 3) \<noteq> []
   \<and> carries_terminal_error (example_heap 3)
   \<and> \<not> suffix ''; fatal error occurred'' (suite_summary (example_heap 3))
   \<and> last (console (suiteEnd example_heap example_world 3))
       = [chalk [Red] (unstyled ''unit: 1/1 tests failed'') @ unstyled NL]
   \<and> \<not> has_parent (example_heap 4) \<and> sessionId (example_heap 4) \<noteq> []
   \<and> carries_terminal_error (example_heap 4)
   \<and> numFailedTests (example_heap 4) = 0
   \<and> \<not> suffix ''; fatal error occurred'' (suite_summary (example_heap 4))
   \<and> last (console (suiteEnd example_heap example_world 4))
       = [chalk [Green] (unstyled ''odd: 0/1 tests failed'') @ unstyled NL]"
  by (simp add: example_defs handler_defs suite_summary_def show_defs carries_terminal_error_def
      suffix_rev_prefix)

subsection \<open>Decimal numerals\<close>

lemma digit_value_digit_char: "d < 10 \<Longrightarrow> digit_value (digit_char d) = Some d"
proof -
  assume "d < 10"
  then have "d \<in> {0, 1, 2, 3, 4, 5, 6, 7, 8, 9}" by auto
  then show ?thesis by (auto simp: digit_value_def digit_char_def)
qed

lemma digit_char_zero: "d < 10 \<Longrightarrow> digit_char d = CHR ''0'' \<longleftrightarrow> d = 0"
proof -
  assume "d < 10"
  then have "d \<in> {0, 1, 2, 3, 4, 5, 6, 7, 8, 9}" by auto
  then show ?thesis by (auto simp: digit_char_def)
qed

lemma numeral_value_snoc:
  "numeral_value (cs @ [c]) a =
     (case numeral_value cs a of
        None \<Rightarrow> None
      | Some m \<Rightarrow> (case digit_value c of None \<Rightarrow> None | Some d \<Rightarrow> Some (10 * m + d)))"
  by (induction cs arbitrary: a) (auto split: option.splits)

lemma show_nat_not_Nil: "show_nat n \<noteq> []"
  by (subst show_nat.simps) simp

lemma numeral_value_show_nat: "numeral_value (show_nat n) 0 = Some n"
proof (induction n rule: show_nat.induct)
  case (1 n)
  show ?case
  proof (cases "n < 10")
    case True
    then show ?thesis by (subst show_nat.simps) (simp add: digit_value_digit_char)
  next
    case False
    with 1 have "numeral_value (show_nat (n div 10)) 0 = Some (n div 10)" by simp
    with False show ?thesis
      by (subst show_nat.simps) (simp add: numeral_value_snoc digit_value_digit_char)
  qed
qed

lemma hd_show_nat: "0 < n \<Longrightarrow> hd (show_nat n) \<noteq> CHR ''0''"
proof (induction n rule: show_nat.induct)
  case (1 n)
  show ?case
  proof (cases "n < 10")
    case True
    with 1(2) show ?thesis by (subst show_nat.simps) (simp add: digit_char_zero)
  next
    case False
    then have "0 < n div 10" by simp
    with 1(1) False have "hd (show_nat (n div 10)) \<noteq> CHR ''0''" by simp
    with False show ?thesis
      by (subst show_nat.simps) (simp add: show_nat_not_Nil)
  qed
qed

lemma decimal_show_nat: "decimal (show_nat n) n"
proof (cases "n = 0")
  case True
  then show ?thesis by (simp add: decimal_def show_nat.simps digit_char_def digit_value_def)
next
  case False
  then show ?thesis
    by (simp add: decimal_def show_nat_not_Nil numeral_value_show_nat hd_show_nat)
qed

lemma totals_text_eq:
  "[chalk [c] (total_message e t f k fatal)]
     = totals_text c (show_nat e) (show_nat f) (show_nat t)
         (if k \<noteq> 0 then Some (show_nat k) else None) (fatal \<and> f = 0)"
  by (simp add: total_message_def chalk_def unstyled_def totals_text_def)

subsection \<open>Root suites and counters along a run\<close>

lemma root_of_Nil [simp]: "root_of [] = Map.empty"
  by (rule ext) (simp add: root_of_def)

lemma root_of_own_set: "root_of (own_set d k v) = (root_of d)(k \<mapsto> session_suite v)"
  by (rule ext) (simp add: root_of_def own_set_def update_conv')

lemma root_of_coverage:
  assumes "coverage w sid cov = Returned w'"
  shows "root_of (sessions w') = root_of (sessions w)"
proof -
  from sessions_coverage [OF assms] show ?thesis
  proof
    assume "sessions w' = sessions w"
    then show ?thesis by simp
  next
    assume "\<exists>s. own_get (sessions w) sid = Some s
                \<and> sessions w' = own_set (sessions w) sid (s\<lparr>session_coverage := True\<rparr>)"
    then obtain s where o: "own_get (sessions w) sid = Some s"
      and e: "sessions w' = own_set (sessions w) sid (s\<lparr>session_coverage := True\<rparr>)" by blast
    from o have "root_of (sessions w) sid = Some (session_suite s)"
      by (simp add: root_of_def own_get_def)
    then show ?thesis unfolding e root_of_own_set by (auto simp: fun_eq_iff)
  qed
qed

lemma root_of_step:
  assumes "step g h e w = Returned w'" and "''__proto__'' \<notin> registered [(h, e)]"
  shows "root_of (sessions w') = root_of (sessions w) ++ map_of (rev (registrations [(h, e)]))"
proof (cases e)
  case (SuiteStart r)
  with assms have "w' = suiteStart h w r" by simp
  then show ?thesis using SuiteStart assms(2)
    by (auto simp: sessions_suiteStart root_of_own_set registered_def split: if_splits)
next
  case (Coverage sid cov)
  with assms show ?thesis by (simp add: root_of_coverage)
qed (use sessions_step_other [OF assms(1)] in auto)

lemma root_of_run:
  "run g evs w0 = Returned w \<Longrightarrow> ''__proto__'' \<notin> registered evs \<Longrightarrow>
   root_of (sessions w) = root_of (sessions w0) ++ map_of (rev (registrations evs))"
proof (induction evs arbitrary: w0)
  case Nil
  then show ?case by simp
next
  case (Cons p evs)
  obtain h e where p: "p = (h, e)" by (cases p)
  from Cons.prems p obtain w1 where s: "step g h e w0 = Returned w1" and r: "run g evs w1 = Returned w"
    using run_Cons_Returned by blast
  have u: "registered (p # evs) = registered [(h, e)] \<union> registered evs"
    unfolding p by (rule registered_Cons)
  with Cons.prems(2) have f: "''__proto__'' \<notin> registered [(h, e)]" and fs: "''__proto__'' \<notin> registered evs"
    by simp_all
  have "map_of (rev (registrations (p # evs)))
        = map_of (rev (registrations [(h, e)])) ++ map_of (rev (registrations evs))"
    unfolding p by (subst registrations_Cons) (simp only: rev_append map_of_append)
  with Cons.IH [OF r fs] root_of_step [OF s f] show ?case by simp
qed

lemma distinct_step:
  assumes "step g h e w = Returned w'" and "distinct (map fst (sessions w))"
  shows "distinct (map fst (sessions w'))"
proof (cases e)
  case (SuiteStart r)
  with assms show ?thesis by (auto simp: sessions_suiteStart distinct_own_set)
next
  case (Coverage sid cov)
  with assms(1) have "coverage w sid cov = Returned w'" by simp
  from sessions_coverage [OF this] assms(2) show ?thesis by (auto simp: distinct_own_set)
qed (use sessions_step_other [OF assms(1)] assms(2) in auto)

lemma distinct_run:
  "run g evs w0 = Returned w \<Longrightarrow> distinct (map fst (sessions w0)) \<Longrightarrow> distinct (map fst (sessions w))"
proof (induction evs arbitrary: w0)
  case Nil
  then show ?case by simp
next
  case (Cons p evs)
  obtain h e where p: "p = (h, e)" by (cases p)
  from Cons.prems p obtain w1 where s: "step g h e w0 = Returned w1" and r: "run g evs w1 = Returned w"
    using run_Cons_Returned by blast
  from Cons.IH [OF r distinct_step [OF s Cons.prems(2)]] show ?case .
qed

lemma session_total_keys:
  "distinct (map fst d) \<Longrightarrow>
   session_total f h d = (\<Sum>k\<in>fst ` set d. case root_of d k of None \<Rightarrow> 0 | Some r \<Rightarrow> f (h r))"
proof (induction d)
  case Nil
  show ?case by (simp add: session_total_def)
next
  case (Cons p d)
  obtain k s where p: "p = (k, s)" by (cases p)
  from Cons.prems p have k: "k \<notin> fst ` set d" and d: "distinct (map fst d)" by auto
  have "(\<Sum>k'\<in>fst ` set d. case root_of (p # d) k' of None \<Rightarrow> 0 | Some r \<Rightarrow> f (h r))
        = (\<Sum>k'\<in>fst ` set d. case root_of d k' of None \<Rightarrow> 0 | Some r \<Rightarrow> f (h r))"
    using k by (intro sum.cong) (auto simp: root_of_def p)
  moreover have "session_total f h (p # d) = f (h (session_suite s)) + session_total f h d"
    by (simp add: session_total_def p)
  moreover have "root_of (p # d) k = Some (session_suite s)" by (simp add: root_of_def p)
  ultimately show ?case using k Cons.IH [OF d] by (simp add: p)
qed

lemma length_keys: "distinct (map fst d) \<Longrightarrow> length d = card (fst ` set d)"
  using distinct_card [of "map fst d"] by simp

subsection \<open>Runs that return\<close>

lemma polluted_step:
  assumes "step g h e w = Returned w'" and "lifecycle e"
  shows "polluted w' = polluted w"
proof (cases e)
  case (TestFail t)
  with assms have "testFail g w t = Returned w'" by simp
  from testFail_Returned [OF this] show ?thesis by (auto simp: output_write_def)
qed (use assms in \<open>auto simp: suiteStart_def sessions_put_def suiteEnd_def testPass_def testSkip_def
        console_log_def output_write_def Let_def split: if_splits\<close>)

lemma handled_step:
  assumes "handled g e" and "\<not> polluted w"
  shows "\<exists>w'. step g h e w = Returned w'"
proof (cases e)
  case (TestFail t)
  with assms(1) have m: "test_sessionId t \<notin> set object_prototype_members"
    and "returns g (test_error t)" by simp_all
  then obtain msg where g: "g (test_error t) = Inr msg"
    by (auto simp: returns_def split: sum.splits)
  show ?thesis
  proof (cases "own_get (errors w) (test_sessionId t)")
    case None
    with m assms(2) have "errors_get w (test_sessionId t) = NoList" by (simp add: errors_get_def)
    with g TestFail show ?thesis
      by (simp add: testFail_def Let_def errors_get_def own_get_set)
  next
    case (Some l)
    then have "errors_get w (test_sessionId t) = OwnList l" by (simp add: errors_get_def)
    with g TestFail show ?thesis by (simp add: testFail_def Let_def)
  qed
qed (use assms in auto)

lemma handled_lifecycle: "handled g e \<Longrightarrow> lifecycle e"
  by (cases e) auto

lemma handled_run:
  "list_all (\<lambda>p. handled g (snd p)) evs \<Longrightarrow> \<not> polluted w0 \<Longrightarrow> \<exists>w. run g evs w0 = Returned w"
proof (induction evs arbitrary: w0)
  case Nil
  show ?case by simp
next
  case (Cons p evs)
  obtain h e where p: "p = (h, e)" by (cases p)
  from Cons.prems p have he: "handled g e" by simp
  from handled_step [OF he Cons.prems(2), of h] obtain w1 where s: "step g h e w0 = Returned w1"
    by blast
  from polluted_step [OF s handled_lifecycle [OF he]] Cons.prems(2) have "\<not> polluted w1" by simp
  with Cons.prems Cons.IH [of w1] obtain w where "run g evs w1 = Returned w" by auto
  with s p show ?case by simp
qed

lemma lifecycle_proto_free:
  "list_all (\<lambda>p. lifecycle (snd p)) evs \<Longrightarrow> ''__proto__'' \<notin> registered evs \<Longrightarrow> proto_free evs"
proof (induction evs)
  case Nil
  show ?case by (simp add: proto_free_def)
next
  case (Cons p evs)
  obtain h e where p: "p = (h, e)" by (cases p)
  have u: "registered (p # evs) = registered [(h, e)] \<union> registered evs"
    unfolding p by (rule registered_Cons)
  with Cons.prems(2) have f: "''__proto__'' \<notin> registered [(h, e)]" and fs: "''__proto__'' \<notin> registered evs"
    by simp_all
  from Cons.prems(1) p have l: "lifecycle e" and ls: "list_all (\<lambda>p. lifecycle (snd p)) evs" by simp_all
  from l f have "proto_free_event (h, e)" by (cases e) (auto simp: registered_def split: if_splits)
  with Cons.IH [OF ls fs] show ?case by (simp add: proto_free_def p)
qed

subsection \<open>A number has one decimal numeral\<close>

lemma digit_value_Some: "digit_value c = Some d \<Longrightarrow> d < 10 \<and> c = digit_char d"
  by (auto simp: digit_value_def digit_char_def split: if_splits)

lemma numeral_value_ge: "numeral_value cs a = Some m \<Longrightarrow> a \<le> m"
proof (induction cs arbitrary: a)
  case Nil
  then show ?case by simp
next
  case (Cons c cs)
  then obtain d where "numeral_value cs (10 * a + d) = Some m" by (auto split: option.splits)
  from Cons.IH [OF this] show ?case by simp
qed

lemma numeral_value_pos:
  assumes "cs \<noteq> []" and "hd cs \<noteq> CHR ''0''" and "numeral_value cs 0 = Some m"
  shows "0 < m"
proof -
  from assms(1) obtain c cs' where cs: "cs = c # cs'" by (cases cs) auto
  with assms(3) obtain d where d: "digit_value c = Some d" and v: "numeral_value cs' d = Some m"
    by (auto split: option.splits)
  from d assms(2) cs have "d \<noteq> 0" by (auto simp: digit_value_def split: if_splits)
  with numeral_value_ge [OF v] show ?thesis by simp
qed

lemma decimal_unique: "decimal s n \<Longrightarrow> s = show_nat n"
proof (induction s arbitrary: n rule: rev_induct)
  case Nil
  then show ?case by (simp add: decimal_def)
next
  case (snoc c cs)
  from snoc.prems have v: "numeral_value (cs @ [c]) 0 = Some n"
    and z: "cs @ [c] = ''0'' \<or> hd (cs @ [c]) \<noteq> CHR ''0''"
    by (simp_all add: decimal_def)
  from v obtain m d where m: "numeral_value cs 0 = Some m" and d: "digit_value c = Some d"
    and n: "n = 10 * m + d"
    by (auto simp: numeral_value_snoc split: option.splits)
  from digit_value_Some [OF d] have d10: "d < 10" and c: "c = digit_char d" by simp_all
  show ?case
  proof (cases "cs = []")
    case True
    with m n have "n = d" by simp
    with True c d10 show ?thesis by (subst show_nat.simps) simp
  next
    case False
    with z have h: "hd cs \<noteq> CHR ''0''" by auto
    with False m have "decimal cs m" by (simp add: decimal_def)
    from snoc.IH [OF this] have cs: "cs = show_nat m" .
    from numeral_value_pos [OF False h m] have "0 < m" .
    with n d10 have "\<not> n < 10" and "n div 10 = m" and "n mod 10 = d" by simp_all
    then have "show_nat n = show_nat m @ [digit_char d]" by (subst show_nat.simps) simp
    with cs c show ?thesis by simp
  qed
qed

subsection \<open>The totals at run end\<close>

text \<open>
  C2 as stated fails for a session whose identifier is \<^verbatim>\<open>__proto__\<close>: the root suite starts and
  is registered, and \<^verbatim>\<open>runEnd\<close> throws in its first loop, before it has printed anything; there
  is no totals line.
\<close>

theorem runEnd_totals_counterexample:
  "list_all (\<lambda>p. lifecycle (snd p)) [(example_heap, SuiteStart 6)]
   \<and> registered [(example_heap, SuiteStart 6)] = {''__proto__''}
   \<and> run example_message [(example_heap, SuiteStart 6)] example_world
       = Returned (suiteStart example_heap example_world 6)
   \<and> runEnd example_seconds example_heap (suiteStart example_heap example_world 6)
       = Threw TypeError (suiteStart example_heap example_world 6)
   \<and> console (suiteStart example_heap example_world 6)
       = [[[([], NL @ [CHR 0xE2, CHR 0x80, CHR 0xA3] @ '' Created session safari (__proto__)'')]]]"
  by (simp add: registered_def runEnd_def forin_def handler_defs example_defs)

text \<open>
  C2, as amended. Take a reporter with no session and untouched prototypes, and any sequence
  of \<^verbatim>\<open>suiteStart\<close>, \<^verbatim>\<open>suiteEnd\<close>, \<^verbatim>\<open>testPass\<close>, \<^verbatim>\<open>testFail\<close> and \<^verbatim>\<open>testSkip\<close> events in which no root
  suite starts under the identifier \<^verbatim>\<open>__proto__\<close>. When every \<^verbatim>\<open>testFail\<close> of the sequence is
  handled (its session identifier names no member of \<^verbatim>\<open>Object.prototype\<close> and
  \<^verbatim>\<open>getErrorMessage\<close> returns), the sequence is handled without a throw. After a sequence
  handled without a throw, the last line \<^verbatim>\<open>runEnd\<close> prints is the totals line: it reads
  \<^verbatim>\<open>TOTAL: tested E platforms, F/T failed\<close>, followed by \<^verbatim>\<open> (K skipped)\<close> when \<open>K\<close> is not zero,
  where \<open>E\<close> is the decimal numeral of the number of registered sessions and \<open>T\<close>, \<open>F\<close> and \<open>K\<close> are
  the decimal numerals of the sums, over the registered sessions, of the counters of each
  session's root suite as the heap has them at run end: each session once, none left out.
  The four numbers are taken to be safe integers, where JavaScript's arithmetic is exact.
\<close>

theorem runEnd_totals:
  assumes "sessions w0 = []" and "sessions_proto w0 = None" and "\<not> polluted w0"
    and "list_all (\<lambda>p. lifecycle (snd p)) evs" and "''__proto__'' \<notin> registered evs"
    and "safe_integer (card (registered evs))"
    and "safe_integer (\<Sum>s\<in>registered evs. session_counter numTests h evs s)"
    and "safe_integer (\<Sum>s\<in>registered evs. session_counter numFailedTests h evs s)"
    and "safe_integer (\<Sum>s\<in>registered evs. session_counter numSkippedTests h evs s)"
  shows "(list_all (\<lambda>p. handled g (snd p)) evs \<longrightarrow> (\<exists>w. run g evs w0 = Returned w))
         \<and> (\<forall>w. run g evs w0 = Returned w \<longrightarrow>
              (\<exists>e t f k.
                  decimal e (card (registered evs))
                \<and> decimal t (\<Sum>s\<in>registered evs. session_counter numTests h evs s)
                \<and> decimal f (\<Sum>s\<in>registered evs. session_counter numFailedTests h evs s)
                \<and> decimal k (\<Sum>s\<in>registered evs. session_counter numSkippedTests h evs s)
                \<and> last (console (world_of (runEnd secs h w)))
                    = totals_text
                        (if (\<Sum>s\<in>registered evs. session_counter numFailedTests h evs s) > 0
                            \<or> hasErrors w0 then Red else Green)
                        e f t
                        (if (\<Sum>s\<in>registered evs. session_counter numSkippedTests h evs s) \<noteq> 0
                         then Some k else None)
                        (hasErrors w0
                         \<and> (\<Sum>s\<in>registered evs. session_counter numFailedTests h evs s) = 0)))"
proof (intro conjI allI impI)
  assume "list_all (\<lambda>p. handled g (snd p)) evs"
  from handled_run [OF this assms(3)] show "\<exists>w. run g evs w0 = Returned w" .
next
  fix w
  assume r: "run g evs w0 = Returned w"
  let ?T = "\<Sum>s\<in>registered evs. session_counter numTests h evs s"
  let ?F = "\<Sum>s\<in>registered evs. session_counter numFailedTests h evs s"
  let ?K = "\<Sum>s\<in>registered evs. session_counter numSkippedTests h evs s"
  from distinct_run [OF r] assms(1) have d: "distinct (map fst (sessions w))" by simp
  from keys_run [OF r assms(5)] assms(1) have k: "fst ` set (sessions w) = registered evs" by simp
  from root_of_run [OF r assms(5)] assms(1)
  have ro: "root_of (sessions w) = map_of (rev (registrations evs))" by simp
  have t: "session_total c h (sessions w) = (\<Sum>s\<in>registered evs. session_counter c h evs s)" for c
    using session_total_keys [OF d, of c h] by (simp add: k ro session_counter_def)
  have l: "length (sessions w) = card (registered evs)"
    using length_keys [OF d] by (simp add: k)
  from prototypes_run [OF r lifecycle_proto_free [OF assms(4,5)] assms(2,3)]
  have "sessions_proto w = None" and "\<not> polluted w" by simp_all
  then have i: "sessions_inherited w = []" "errors_inherited w = []" by (rule inherited_none)+
  from frame_run [OF r] have e: "hasErrors w = hasErrors w0" by simp
  have "last (console (world_of (runEnd secs h w)))
          = [chalk [if ?F > 0 \<or> hasErrors w0 then Red else Green]
               (total_message (card (registered evs)) ?T ?F ?K (hasErrors w0))]"
    by (simp add: last_console_runEnd [OF i] last_runEnd_lines t l e)
  then have "last (console (world_of (runEnd secs h w)))
          = totals_text (if ?F > 0 \<or> hasErrors w0 then Red else Green)
              (show_nat (card (registered evs))) (show_nat ?F) (show_nat ?T)
              (if ?K \<noteq> 0 then Some (show_nat ?K) else None) (hasErrors w0 \<and> ?F = 0)"
    by (simp only: totals_text_eq)
  with decimal_show_nat [of "card (registered evs)"] decimal_show_nat [of ?T]
    decimal_show_nat [of ?F] decimal_show_nat [of ?K]
  show "\<exists>e t f k. decimal e (card (registered evs)) \<and> decimal t ?T \<and> decimal f ?F \<and> decimal k ?K
          \<and> last (console (world_of (runEnd secs h w)))
              = totals_text (if ?F > 0 \<or> hasErrors w0 then Red else Green) e f t
                  (if ?K \<noteq> 0 then Some k else None) (hasErrors w0 \<and> ?F = 0)"
    by blast
qed

theorem runEnd_totals_witness:
  "sessions example_world = [] \<and> sessions_proto example_world = None \<and> \<not> polluted example_world
   \<and> list_all (\<lambda>p. lifecycle (snd p)) example_run
   \<and> ''__proto__'' \<notin> registered example_run
   \<and> list_all (\<lambda>p. handled example_message (snd p)) example_run
   \<and> registered example_run = {''A'', ''B''}
   \<and> safe_integer 2 \<and> safe_integer 15 \<and> safe_integer 1
   \<and> session_counter numTests example_heap example_run ''A'' = 10
   \<and> session_counter numFailedTests example_heap example_run ''A'' = 1
   \<and> session_counter numSkippedTests example_heap example_run ''A'' = 0
   \<and> session_counter numTests example_heap example_run ''B'' = 5
   \<and> session_counter numFailedTests example_heap example_run ''B'' = 0
   \<and> session_counter numSkippedTests example_heap example_run ''B'' = 2
   \<and> (\<exists>w. run example_message example_run example_world = Returned w
         \<and> last (console (world_of (runEnd example_seconds example_heap w)))
             = [[([Red, Bold], NL @ ''TOTAL''),
                 ([Red], '': tested 2 platforms, 1/15 failed (2 skipped)'')]])"
proof -
  have a: "sessions example_world = []" "sessions_proto example_world = None"
    "\<not> polluted example_world"
    by (simp_all add: example_defs)
  have b: "list_all (\<lambda>p. lifecycle (snd p)) example_run" by (simp add: example_defs)
  have c: "registered example_run = {''A'', ''B''}" by (simp add: registered_def example_defs)
  have p: "''__proto__'' \<notin> registered example_run" unfolding c by simp
  have hd: "list_all (\<lambda>p. handled example_message (snd p)) example_run"
    by (simp add: example_defs returns_def object_prototype_members_def)
  have d: "session_counter numTests example_heap example_run ''A'' = 10"
    "session_counter numFailedTests example_heap example_run ''A'' = 1"
    "session_counter numSkippedTests example_heap example_run ''A'' = 0"
    "session_counter numTests example_heap example_run ''B'' = 5"
    "session_counter numFailedTests example_heap example_run ''B'' = 0"
    "session_counter numSkippedTests example_heap example_run ''B'' = 2"
    by (simp_all add: session_counter_def example_defs)
  have e: "hasErrors example_world = False" by (simp add: example_defs)
  have g: "card {''A'', ''B''} = (2::nat)" by simp
  have s: "(\<Sum>k\<in>{''A'', ''B''}. session_counter numTests example_heap example_run k) = 15"
    "(\<Sum>k\<in>{''A'', ''B''}. session_counter numFailedTests example_heap example_run k) = 1"
    "(\<Sum>k\<in>{''A'', ''B''}. session_counter numSkippedTests example_heap example_run k) = 2"
    by (simp_all add: d)
  have si: "safe_integer (card (registered example_run))"
    "safe_integer (\<Sum>k\<in>registered example_run. session_counter numTests example_heap example_run k)"
    "safe_integer (\<Sum>k\<in>registered example_run. session_counter numFailedTests example_heap example_run k)"
    "safe_integer (\<Sum>k\<in>registered example_run. session_counter numSkippedTests example_heap example_run k)"
    unfolding c g s by (simp_all add: safe_integer_def)
  have sj: "safe_integer 2" "safe_integer 15" "safe_integer 1" by (simp_all add: safe_integer_def)
  note th = runEnd_totals [OF a b p si, of example_message example_seconds]
  from th hd obtain w where r: "run example_message example_run example_world = Returned w"
    by blast
  with th obtain e' t f k where n: "decimal e' 2" "decimal t 15" "decimal f 1" "decimal k 2"
    and l: "last (console (world_of (runEnd example_seconds example_heap w)))
              = totals_text Red e' f t (Some k) False"
    unfolding c e g s by auto
  from n have "e' = ''2''" "t = ''15''" "f = ''1''" "k = ''2''"
    by (auto dest!: decimal_unique simp: show_defs)
  with l have "last (console (world_of (runEnd example_seconds example_heap w)))
             = [[([Red, Bold], NL @ ''TOTAL''),
                 ([Red], '': tested 2 platforms, 1/15 failed (2 skipped)'')]]"
    by (simp add: totals_text_def)
  with r a b c p hd d sj show ?thesis by blast
qed

subsection \<open>The error ledger along a run\<close>
















subsection \<open>The error ledger\<close>









subsection \<open>The final coverage report\<close>

lemma collector_step:
  assumes "step g h e w = Returned w'"
  shows "collector w' = foldl collector_add (collector w) (accepted (mode w) [(h, e)])"
proof (cases e)
  case (Coverage sid cov)
  with assms show ?thesis
    by (auto simp: coverage_def split: if_splits session_lookup.splits)
next
  case (TestFail t)
  with assms have "testFail g w t = Returned w'" by simp
  from testFail_Returned [OF this] TestFail show ?thesis by (auto simp: output_write_def)
qed (use assms in \<open>auto simp: suiteStart_def sessions_put_def suiteEnd_def testPass_def testSkip_def
        console_log_def output_write_def Let_def split: if_splits\<close>)

lemma accepted_Cons: "accepted m (p # evs) = accepted m [p] @ accepted m evs"
  by (cases p, cases "snd p") auto

lemma collector_run:
  "run g evs w0 = Returned w \<Longrightarrow>
   collector w = foldl collector_add (collector w0) (accepted (mode w0) evs)"
proof (induction evs arbitrary: w0)
  case Nil
  then show ?case by simp
next
  case (Cons p evs)
  obtain h e where p: "p = (h, e)" by (cases p)
  from Cons.prems p obtain w1 where s: "step g h e w0 = Returned w1" and r: "run g evs w1 = Returned w"
    using run_Cons_Returned by blast
  from frame_step [OF s] have m: "mode w1 = mode w0" by simp
  from Cons.IH [OF r] collector_step [OF s] show ?case
    unfolding p m by (subst accepted_Cons) simp
qed

lemma count_of_foldl:
  "count_of (foldl collector_add c cs) x = count_of c x + sum_list (map (\<lambda>s. count_of s x) cs)"
  by (induction cs arbitrary: c) (simp_all add: count_of_collector_add)

lemma dom_foldl: "dom (foldl collector_add c cs) = dom c \<union> \<Union> (dom ` set cs)"
  by (induction cs arbitrary: c) (auto simp: dom_collector_add)

lemma writeCoverage_default:
  assumes "filename w = DEFAULT_COVERAGE_FILENAME"
    and "artifact_coverage (disk w DEFAULT_COVERAGE_FILENAME) = Some prior"
  shows "\<exists>w' r. writeCoverage w = Returned w'
           \<and> disk w' DEFAULT_COVERAGE_FILENAME = Some (File r (Json (collector_add (collector w) prior)))"
proof (cases "disk w DEFAULT_COVERAGE_FILENAME")
  case None
  with assms have "prior = Map.empty" by (simp add: artifact_coverage_def)
  with assms None show ?thesis
    by (auto simp: writeCoverage_def checkCoverageFinal_def writeReport_def)
next
  case (Some f)
  obtain r b where f: "f = File r b" by (cases f)
  show ?thesis
  proof (cases r)
    case True
    with assms Some f obtain "b = Json prior" by (cases b) (simp_all add: artifact_coverage_def)
    with assms Some f True show ?thesis
      by (auto simp: writeCoverage_def checkCoverageFinal_def writeReport_def readFileSync_def JSON_parse_def)
  next
    case False
    with assms Some f have "prior = Map.empty" by (simp add: artifact_coverage_def)
    with assms Some f False show ?thesis
      by (auto simp: writeCoverage_def checkCoverageFinal_def writeReport_def)
  qed
qed

text \<open>
  C1, as amended. Take a reporter whose output path is the default path, with an empty
  collector, and a prior artifact at the default path that is absent, unreadable, or readable
  and well formed. After any run that returns (no handler has thrown) and after which the
  loops of \<^verbatim>\<open>runEnd\<close> visit own keys only (as they do when the prototypes were untouched at the
  start and the key \<^verbatim>\<open>__proto__\<close> was not used during the run), finalization returns and the
  report it writes is the union of the prior artifact and of every snapshot that was accepted
  during the run (delivered in client mode or with a non-empty session identifier): it has
  the files of all of them, and the count of each file is the sum of its counts in them. A
  snapshot delivered with an empty identifier outside client mode is dropped and is not part
  of the report.
\<close>

theorem final_report_union:
  assumes "filename w0 = DEFAULT_COVERAGE_FILENAME" and "collector w0 = Map.empty"
    and "artifact_coverage (disk w0 DEFAULT_COVERAGE_FILENAME) = Some prior"
    and "run g evs w0 = Returned w"
    and "sessions_inherited w = []" and "errors_inherited w = []"
  shows "\<exists>w' r report. runEnd secs h w = Returned w'
           \<and> disk w' DEFAULT_COVERAGE_FILENAME = Some (File r (Json report))
           \<and> (\<forall>x. count_of report x
                    = count_of prior x + sum_list (map (\<lambda>s. count_of s x) (accepted (mode w0) evs)))
           \<and> dom report = dom prior \<union> \<Union> (dom ` set (accepted (mode w0) evs))"
proof -
  from frame_run [OF assms(4)] assms(1,3)
  have f: "filename w = DEFAULT_COVERAGE_FILENAME"
    and d: "artifact_coverage (disk w DEFAULT_COVERAGE_FILENAME) = Some prior" by simp_all
  let ?w = "w\<lparr>console := console w @ runEnd_lines secs h w\<rparr>"
  from writeCoverage_default [of ?w prior] f d
  obtain w' r where w': "runEnd secs h w = Returned w'"
    and r: "disk w' DEFAULT_COVERAGE_FILENAME = Some (File r (Json (collector_add (collector w) prior)))"
    by (auto simp: runEnd_unfold [OF assms(5,6)])
  let ?report = "collector_add (collector w) prior"
  have c: "collector w = foldl collector_add Map.empty (accepted (mode w0) evs)"
    using collector_run [OF assms(4)] assms(2) by simp
  have "count_of ?report x
          = count_of prior x + sum_list (map (\<lambda>s. count_of s x) (accepted (mode w0) evs))" for x
    by (simp add: count_of_collector_add c count_of_foldl)
  moreover have "dom ?report = dom prior \<union> \<Union> (dom ` set (accepted (mode w0) evs))"
    by (simp add: dom_collector_add c dom_foldl Un_commute)
  ultimately show ?thesis using w' r by blast
qed

theorem final_report_union_witness:
  "filename (prior_world ''runner'') = DEFAULT_COVERAGE_FILENAME
   \<and> collector (prior_world ''runner'') = Map.empty
   \<and> artifact_coverage (disk (prior_world ''runner'') DEFAULT_COVERAGE_FILENAME) = Some [''x.js'' \<mapsto> 5]
   \<and> run example_message (coverage_run ''A'') (prior_world ''runner'')
       = Returned (world_of (run example_message (coverage_run ''A'') (prior_world ''runner'')))
   \<and> sessions_inherited (world_of (run example_message (coverage_run ''A'') (prior_world ''runner''))) = []
   \<and> errors_inherited (world_of (run example_message (coverage_run ''A'') (prior_world ''runner''))) = []
   \<and> accepted (mode (prior_world ''runner'')) (coverage_run ''A'') = [[''x.js'' \<mapsto> 3]]
   \<and> (\<exists>w' r report.
         runEnd example_seconds example_heap
            (world_of (run example_message (coverage_run ''A'') (prior_world ''runner'')))
           = Returned w'
         \<and> disk w' DEFAULT_COVERAGE_FILENAME = Some (File r (Json report))
         \<and> count_of report ''x.js'' = 8)"
proof -
  let ?init = "prior_world ''runner''"
  let ?w = "world_of (run example_message (coverage_run ''A'') ?init)"
  have a: "filename ?init = DEFAULT_COVERAGE_FILENAME" by (simp add: example_defs)
  have b: "collector ?init = Map.empty" by (simp add: example_defs)
  have c: "artifact_coverage (disk ?init DEFAULT_COVERAGE_FILENAME) = Some [''x.js'' \<mapsto> 5]"
    by (simp add: example_defs artifact_coverage_def)
  have d: "run example_message (coverage_run ''A'') ?init = Returned ?w"
    by (simp add: example_defs handler_defs)
  have i: "sessions_inherited ?w = []" "errors_inherited ?w = []"
    by (simp_all add: example_defs handler_defs)
  have e: "accepted (mode ?init) (coverage_run ''A'') = [[''x.js'' \<mapsto> 3]]"
    by (simp add: example_defs)
  from final_report_union [OF a b c d i, of example_seconds example_heap]
  obtain w' r report where "runEnd example_seconds example_heap ?w = Returned w'"
    and "disk w' DEFAULT_COVERAGE_FILENAME = Some (File r (Json report))"
    and "count_of report ''x.js''
          = count_of [''x.js'' \<mapsto> 5] ''x.js''
            + sum_list (map (\<lambda>s. count_of s ''x.js'') (accepted (mode ?init) (coverage_run ''A'')))"
    by blast
  then have "\<exists>w' r report. runEnd example_seconds example_heap ?w = Returned w'
         \<and> disk w' DEFAULT_COVERAGE_FILENAME = Some (File r (Json report))
         \<and> count_of report ''x.js'' = 8"
    unfolding e by (auto simp: count_of_def)
  with a b c d i e show ?thesis by blast
qed

text \<open>
  C1 as stated fails for a snapshot that \<^verbatim>\<open>coverage\<close> rejects: with count 5 for \<^verbatim>\<open>x.js\<close> in
  the prior artifact and a snapshot with count 3 delivered under the empty identifier outside
  client mode, the run and the finalization return and the report shows 5.
\<close>

theorem final_report_union_counterexample:
  "run example_message (coverage_run []) (prior_world ''runner'')
       = Returned (world_of (run example_message (coverage_run []) (prior_world ''runner'')))
   \<and> runEnd example_seconds example_heap
        (world_of (run example_message (coverage_run []) (prior_world ''runner'')))
       = Returned (world_of (runEnd example_seconds example_heap
                     (world_of (run example_message (coverage_run []) (prior_world ''runner'')))))
   \<and> disk (world_of (runEnd example_seconds example_heap
               (world_of (run example_message (coverage_run []) (prior_world ''runner'')))))
        DEFAULT_COVERAGE_FILENAME
       = Some (File True (Json [''x.js'' \<mapsto> 5]))
   \<and> count_of [''x.js'' \<mapsto> 5] ''x.js'' = 5"
proof -
  let ?w = "world_of (run example_message (coverage_run []) (prior_world ''runner''))"
  have d: "run example_message (coverage_run []) (prior_world ''runner'') = Returned ?w"
    by (simp add: example_defs handler_defs)
  have f: "filename ?w = DEFAULT_COVERAGE_FILENAME"
    and k: "disk ?w = [DEFAULT_COVERAGE_FILENAME \<mapsto> File True (Json [''x.js'' \<mapsto> 5])]"
    and c: "collector ?w = Map.empty"
    by (simp_all add: example_defs handler_defs)
  have i: "sessions_inherited ?w = []" "errors_inherited ?w = []"
    by (simp_all add: example_defs handler_defs)
  have "runEnd example_seconds example_heap ?w
          = Returned (writeReport (?w\<lparr>console := console ?w @ runEnd_lines example_seconds example_heap ?w,
                                     collector := [''x.js'' \<mapsto> 5]\<rparr>))"
    unfolding runEnd_unfold [OF i]
    by (simp add: writeCoverage_def checkCoverageFinal_def readFileSync_def JSON_parse_def k f c)
  then show ?thesis using d
    by (simp add: writeReport_def k f count_of_def)
qed

end
